theory Spec2Isabelle
  imports Complex_Main "HOL-Library.Product_Lexorder" "HOL-Library.Sublist"
begin

unbundle bit_operations_syntax

section \<open>Conventions of the embedding\<close>

text \<open>
  The Python sources \<^verbatim>\<open>pdf_redactions.py\<close>, \<^verbatim>\<open>pdf_info.py\<close> and \<^verbatim>\<open>widths.py\<close>
  are embedded function by function.
  \<^item> A raised exception is a value \<open>Inl e\<close> of \<open>error + 'a\<close>; a loop stops at the first one.
  \<^item> Python floats are modelled as exact \<open>real\<close> numbers (no rounding error, no NaN).
  \<^item> Python \<open>str\<close> is \<open>string\<close>; characters are the code points below 256.
  \<^item> The document engine (PyMuPDF) and the shaping engine (HarfBuzz) are not part of the
    repository. A document is the data the code reads from it: a list of pages, each call
    on a page either returning its data or raising. The shaper is a function parameter.
\<close>

datatype error =
    ZeroDivisionError
  | IndexError
  | KeyError
  | TypeError
  | FileNotFoundError string
  | FitzError

section \<open>pdf\_redactions.py\<close>

subsection \<open>Data\<close>

record Rect =
  x0 :: real
  y0 :: real
  x1 :: real
  y1 :: real

text \<open>
  \<^verbatim>\<open>Rect.width\<close> and \<^verbatim>\<open>Rect.height\<close> are properties of the document engine's
  rectangle class, documented as \<^verbatim>\<open>max(0, x1 - x0)\<close> and \<^verbatim>\<open>max(0, y1 - y0)\<close>.
\<close>

definition Rect_width :: "Rect \<Rightarrow> real" where
  "Rect_width r = max 0 (x1 r - x0 r)"

definition Rect_height :: "Rect \<Rightarrow> real" where
  "Rect_height r = max 0 (y1 r - y0 r)"

record RedactionBox =
  page :: nat
  bbox :: "real \<times> real \<times> real \<times> real"

text \<open>The properties \<^verbatim>\<open>RedactionBox.width\<close> and \<^verbatim>\<open>RedactionBox.height\<close>.\<close>

definition width :: "RedactionBox \<Rightarrow> real" where
  "width b = (case bbox b of (bx0, by0, bx1, by1) \<Rightarrow> bx1 - bx0)"

definition height :: "RedactionBox \<Rightarrow> real" where
  "height b = (case bbox b of (bx0, by0, bx1, by1) \<Rightarrow> by1 - by0)"

record annot =
  annot_type :: int
  annot_rect :: Rect

text \<open>The value of \<^verbatim>\<open>drawing.get("fill")\<close>: absent, a tuple of channels, or another object.\<close>

datatype fill = NoFill | FillTuple "real list" | FillOther

record drawing =
  drawing_fill :: fill
  drawing_rect :: Rect

record pixmap =
  pix_width :: nat
  pix_height :: nat
  samples :: "nat list"

datatype line_span = LineSpan
  (raw_text: string) (raw_font: string) (raw_size: real) (raw_flags: int) (raw_color: int)
  (raw_bbox: "real \<times> real \<times> real \<times> real")

record block =
  block_type :: int
  block_lines :: "line_span list list"

record fitz_page =
  page_rect :: Rect
  annots :: "error + annot list"
  get_drawings :: "error + drawing list"
  get_pixmap :: "int \<Rightarrow> error + pixmap"
  get_text :: "error + block list"

type_synonym document = "fitz_page list"

text \<open>The state of the handle that \<^verbatim>\<open>fitz.open\<close> returns, as the calls leave it.\<close>

datatype handle_state = NotAcquired | Open | Closed

text \<open>
  A statement of a function that opens a document runs from a handle state and either
  returns a value or raises, leaving a handle state. \<open>then_do\<close> is sequencing: when the
  first statement raises, the rest is not run and the exception leaves the function with
  the handle as it is then.
\<close>

type_synonym 'a handle_op = "handle_state \<Rightarrow> (error + 'a) \<times> handle_state"

definition then_do :: "'a handle_op \<Rightarrow> ('a \<Rightarrow> 'b handle_op) \<Rightarrow> 'b handle_op" where
  "then_do m f h = (case m h of (Inl e, h') \<Rightarrow> (Inl e, h') | (Inr x, h') \<Rightarrow> f x h')"

text \<open>
  \<^verbatim>\<open>fitz.open\<close> (its outcome is given: the document or the exception), \<^verbatim>\<open>doc.close()\<close>,
  and a call that does not touch the handle.
\<close>

definition fitz_open :: "error + 'd \<Rightarrow> 'd handle_op" where
  "fitz_open opened h = (case opened of Inl e \<Rightarrow> (Inl e, h) | Inr doc \<Rightarrow> (Inr doc, Open))"

definition doc_close :: "unit handle_op" where
  "doc_close h = (Inr (), Closed)"

definition call :: "error + 'a \<Rightarrow> 'a handle_op" where
  "call r h = (r, h)"

definition enumerate :: "'a list \<Rightarrow> (nat \<times> 'a) list" where
  "enumerate xs = zip [0..<length xs] xs"

definition PDF_ANNOT_REDACT :: int where
  "PDF_ANNOT_REDACT = 12"

subsection \<open>Annotation and vector detectors\<close>

definition annot_boxes :: "nat \<Rightarrow> annot list \<Rightarrow> RedactionBox list" where
  "annot_boxes page_num as =
     map (\<lambda>a. \<lparr>page = page_num,
                bbox = (x0 (annot_rect a), y0 (annot_rect a), x1 (annot_rect a), y1 (annot_rect a))\<rparr>)
       (filter (\<lambda>a. annot_type a = PDF_ANNOT_REDACT) as)"

fun annotation_loop :: "(nat \<times> fitz_page) list \<Rightarrow> RedactionBox list \<Rightarrow> error + RedactionBox list" where
  "annotation_loop [] results = Inr results"
| "annotation_loop ((page_num, p) # ps) results =
     (case annots p of
        Inl e \<Rightarrow> Inl e
      | Inr as \<Rightarrow> annotation_loop ps (results @ annot_boxes page_num as))"

definition find_annotation_redactions :: "document \<Rightarrow> error + RedactionBox list" where
  "find_annotation_redactions doc = annotation_loop (enumerate doc) []"

definition is_redaction_drawing :: "drawing \<Rightarrow> bool" where
  "is_redaction_drawing d =
     (case drawing_fill d of
        NoFill \<Rightarrow> False
      | FillOther \<Rightarrow> False
      | FillTuple cs \<Rightarrow>
          list_all (\<lambda>c. c \<le> 1 / 10) cs
          \<and> Rect_width (drawing_rect d) \<ge> 15 \<and> Rect_height (drawing_rect d) \<ge> 5)"

definition drawing_boxes :: "nat \<Rightarrow> drawing list \<Rightarrow> RedactionBox list" where
  "drawing_boxes page_num ds =
     map (\<lambda>d. \<lparr>page = page_num,
                bbox = (x0 (drawing_rect d), y0 (drawing_rect d), x1 (drawing_rect d), y1 (drawing_rect d))\<rparr>)
       (filter is_redaction_drawing ds)"

fun vector_loop :: "(nat \<times> fitz_page) list \<Rightarrow> RedactionBox list \<Rightarrow> error + RedactionBox list" where
  "vector_loop [] results = Inr results"
| "vector_loop ((page_num, p) # ps) results =
     (case get_drawings p of
        Inl e \<Rightarrow> Inl e
      | Inr ds \<Rightarrow> vector_loop ps (results @ drawing_boxes page_num ds))"

definition find_vector_redactions :: "document \<Rightarrow> error + RedactionBox list" where
  "find_vector_redactions doc = vector_loop (enumerate doc) []"

subsection \<open>Raster scanner\<close>

type_synonym run = "nat \<times> nat"

text \<open>
  The loop of \<^verbatim>\<open>_get_dark_runs\<close> over \<^verbatim>\<open>x in range(width)\<close>, on the state
  \<open>(runs, in_run, start)\<close>. Reading \<^verbatim>\<open>samples[offset + x]\<close> past the end raises.
\<close>

fun dark_runs_loop ::
  "nat list \<Rightarrow> nat \<Rightarrow> int \<Rightarrow> int \<Rightarrow> nat list \<Rightarrow> run list \<times> bool \<times> nat
     \<Rightarrow> error + (run list \<times> bool \<times> nat)" where
  "dark_runs_loop smp offset threshold min_width [] st = Inr st"
| "dark_runs_loop smp offset threshold min_width (x # xs) (runs, in_run, start) =
     (if length smp \<le> offset + x then Inl IndexError
      else if int (smp ! (offset + x)) < threshold then
        dark_runs_loop smp offset threshold min_width xs
          (if \<not> in_run then (runs, True, x) else (runs, in_run, start))
      else
        dark_runs_loop smp offset threshold min_width xs
          (if in_run then
             ((if int x - int start \<ge> min_width then runs @ [(start, x)] else runs), False, start)
           else (runs, in_run, start)))"

definition get_dark_runs :: "nat list \<Rightarrow> nat \<Rightarrow> nat \<Rightarrow> int \<Rightarrow> int \<Rightarrow> error + run list" where
  "get_dark_runs smp y w threshold min_width =
     (case dark_runs_loop smp (y * w) threshold min_width [0..<w] ([], False, 0) of
        Inl e \<Rightarrow> Inl e
      | Inr (runs, in_run, start) \<Rightarrow>
          Inr (if in_run \<and> int w - int start \<ge> min_width then runs @ [(start, w)] else runs))"

definition runs_match :: "run list \<Rightarrow> run list \<Rightarrow> int \<Rightarrow> bool" where
  "runs_match a b tolerance =
     (if length a \<noteq> length b \<or> a = [] then False
      else list_all (\<lambda>(ra, rb). \<bar>int (fst ra) - int (fst rb)\<bar> \<le> tolerance
                              \<and> \<bar>int (snd ra) - int (snd rb)\<bar> \<le> tolerance) (zip a b))"

definition run_tolerance :: int where
  "run_tolerance = 3"

definition min_rows :: int where
  "min_rows = 5"

text \<open>The box appended for one run of a region that started at row \<open>start_y\<close> and closes at row \<open>y\<close>.\<close>

definition run_box :: "nat \<Rightarrow> real \<Rightarrow> real \<Rightarrow> nat \<Rightarrow> nat \<Rightarrow> run \<Rightarrow> RedactionBox" where
  "run_box page_num scale_x scale_y start_y y r =
     \<lparr>page = page_num,
      bbox = (real (fst r) * scale_x, real start_y * scale_y, real (snd r) * scale_x, real y * scale_y)\<rparr>"

text \<open>
  The state of the row loop is \<open>(prev_runs, rect_start_y, results)\<close>. \<open>close_rects\<close> is the
  block under "Close previous rectangles" (and "Close final rectangles", with \<open>y = h\<close>).
\<close>

type_synonym scan_state = "run list \<times> nat \<times> RedactionBox list"

definition close_rects ::
  "nat \<Rightarrow> real \<Rightarrow> real \<Rightarrow> nat \<Rightarrow> scan_state \<Rightarrow> RedactionBox list" where
  "close_rects page_num scale_x scale_y y st =
     (case st of (prev_runs, rect_start_y, results) \<Rightarrow>
        if prev_runs \<noteq> [] \<and> int y - int rect_start_y \<ge> min_rows
        then results @ map (run_box page_num scale_x scale_y rect_start_y y) prev_runs
        else results)"

definition scan_row ::
  "nat \<Rightarrow> real \<Rightarrow> real \<Rightarrow> nat \<Rightarrow> run list \<Rightarrow> scan_state \<Rightarrow> scan_state" where
  "scan_row page_num scale_x scale_y y runs st =
     (case st of (prev_runs, rect_start_y, results) \<Rightarrow>
        if runs_match runs prev_runs run_tolerance then st
        else (runs, y, close_rects page_num scale_x scale_y y st))"

fun scan_loop ::
  "nat list \<Rightarrow> nat \<Rightarrow> int \<Rightarrow> int \<Rightarrow> nat \<Rightarrow> real \<Rightarrow> real \<Rightarrow> nat list \<Rightarrow> scan_state
     \<Rightarrow> error + scan_state" where
  "scan_loop smp w threshold min_run_px page_num scale_x scale_y [] st = Inr st"
| "scan_loop smp w threshold min_run_px page_num scale_x scale_y (y # ys) st =
     (case get_dark_runs smp y w threshold min_run_px of
        Inl e \<Rightarrow> Inl e
      | Inr runs \<Rightarrow>
          scan_loop smp w threshold min_run_px page_num scale_x scale_y ys
            (scan_row page_num scale_x scale_y y runs st))"

text \<open>Python's \<^verbatim>\<open>int(x)\<close> on a float truncates towards zero.\<close>

definition py_int :: "real \<Rightarrow> int" where
  "py_int x = (if x \<ge> 0 then \<lfloor>x\<rfloor> else \<lceil>x\<rceil>)"

text \<open>
  The scale factors from raster pixels to document points, and the least run length in
  pixels. A division by zero raises.
\<close>

definition scale_x :: "fitz_page \<Rightarrow> pixmap \<Rightarrow> real" where
  "scale_x p pix = Rect_width (page_rect p) / real (pix_width pix)"

definition scale_y :: "fitz_page \<Rightarrow> pixmap \<Rightarrow> real" where
  "scale_y p pix = Rect_height (page_rect p) / real (pix_height pix)"

definition min_run_px :: "real \<Rightarrow> fitz_page \<Rightarrow> pixmap \<Rightarrow> int" where
  "min_run_px min_width_pt p pix = py_int (min_width_pt / scale_x p pix)"

text \<open>The body of the page loop of \<^verbatim>\<open>_find_image_redactions\<close>, from the running \<open>results\<close>.\<close>

definition scan_page ::
  "int \<Rightarrow> int \<Rightarrow> real \<Rightarrow> nat \<Rightarrow> fitz_page \<Rightarrow> RedactionBox list \<Rightarrow> error + RedactionBox list" where
  "scan_page dpi dark_threshold min_width_pt page_num p results =
     (case get_pixmap p dpi of
        Inl e \<Rightarrow> Inl e
      | Inr pix \<Rightarrow>
          if pix_width pix = 0 \<or> pix_height pix = 0 \<or> scale_x p pix = 0 then Inl ZeroDivisionError
          else
            (case scan_loop (samples pix) (pix_width pix) dark_threshold
                    (min_run_px min_width_pt p pix) page_num (scale_x p pix) (scale_y p pix)
                    [0..<pix_height pix] ([], 0, results) of
               Inl e \<Rightarrow> Inl e
             | Inr st \<Rightarrow>
                 Inr (close_rects page_num (scale_x p pix) (scale_y p pix) (pix_height pix) st)))"

fun image_loop ::
  "int \<Rightarrow> int \<Rightarrow> real \<Rightarrow> (nat \<times> fitz_page) list \<Rightarrow> RedactionBox list \<Rightarrow> error + RedactionBox list" where
  "image_loop dpi dark_threshold min_width_pt [] results = Inr results"
| "image_loop dpi dark_threshold min_width_pt ((page_num, p) # ps) results =
     (case scan_page dpi dark_threshold min_width_pt page_num p results of
        Inl e \<Rightarrow> Inl e
      | Inr results' \<Rightarrow> image_loop dpi dark_threshold min_width_pt ps results')"

definition find_image_redactions ::
  "document \<Rightarrow> int \<Rightarrow> int \<Rightarrow> real \<Rightarrow> real \<Rightarrow> error + RedactionBox list" where
  "find_image_redactions doc dpi dark_threshold min_height_pt min_width_pt =
     (case image_loop dpi dark_threshold min_width_pt (enumerate doc) [] of
        Inl e \<Rightarrow> Inl e
      | Inr results \<Rightarrow> Inr (filter (\<lambda>r. height r \<ge> min_height_pt) results))"

subsection \<open>Fusion\<close>

definition sort_key_of :: "RedactionBox \<Rightarrow> nat \<times> real \<times> real" where
  "sort_key_of r = (case bbox r of (bx0, by0, bx1, by1) \<Rightarrow> (page r, by0, bx0))"

text \<open>
  \<^verbatim>\<open>find_redactions\<close> on the outcome of \<^verbatim>\<open>fitz.open\<close>, statement by statement: the
  value returned or the exception raised, and the state in which the handle is left.
  \<^verbatim>\<open>list.sort\<close> is a stable sort, as \<open>sort_key\<close> is.
\<close>

definition find_redactions :: "error + document \<Rightarrow> (error + RedactionBox list) \<times> handle_state" where
  "find_redactions opened =
     then_do (fitz_open opened) (\<lambda>doc.
     then_do (call (find_annotation_redactions doc)) (\<lambda>results1.
     then_do (call (find_vector_redactions doc)) (\<lambda>results2.
     then_do (call (find_image_redactions doc 150 80 5 15)) (\<lambda>results3.
     then_do doc_close (\<lambda>u.
     call (Inr (sort_key sort_key_of (results1 @ results2 @ results3))))))))
     NotAcquired"

section \<open>widths.py\<close>

datatype FontT = Arial | Calibri | Cambria | Courier_New | Helvetica | Times_New_Roman

text \<open>The string literal each member of \<^verbatim>\<open>FontT\<close> stands for.\<close>

fun FontT_str :: "FontT \<Rightarrow> string" where
  "FontT_str Arial = ''arial''"
| "FontT_str Calibri = ''calibri''"
| "FontT_str Cambria = ''cambria''"
| "FontT_str Courier_New = ''courier new''"
| "FontT_str Helvetica = ''helvetica''"
| "FontT_str Times_New_Roman = ''times new roman''"

fun FONT_FILES :: "FontT \<Rightarrow> string list" where
  "FONT_FILES Arial = [''Arial.ttf'', ''LiberationSans-Regular.ttf'', ''Arimo-Regular.ttf'']"
| "FONT_FILES Calibri = [''Calibri.ttf'', ''Carlito-Regular.ttf'']"
| "FONT_FILES Cambria = [''Cambria.ttf'', ''Caladea-Regular.ttf'']"
| "FONT_FILES Courier_New =
     [''Courier New.ttf'', ''cour.ttf'', ''LiberationMono-Regular.ttf'', ''Cousine-Regular.ttf'']"
| "FONT_FILES Helvetica =
     [''Helvetica.ttc'', ''Helvetica.ttf'', ''Arial.ttf'', ''LiberationSans-Regular.ttf'',
      ''Arimo-Regular.ttf'']"
| "FONT_FILES Times_New_Roman =
     [''Times New Roman.ttf'', ''times.ttf'', ''LiberationSerif-Regular.ttf'', ''Tinos-Regular.ttf'']"

definition FONT_FILES_keys :: "FontT list" where
  "FONT_FILES_keys = [Arial, Calibri, Cambria, Courier_New, Helvetica, Times_New_Roman]"

subsection \<open>Strings\<close>

text \<open>Python's \<^verbatim>\<open>sub in s\<close> on strings.\<close>

fun str_contains :: "string \<Rightarrow> string \<Rightarrow> bool" where
  "str_contains sub [] = (sub = [])"
| "str_contains sub (c # cs) = (prefix sub (c # cs) \<or> str_contains sub cs)"

fun join :: "string \<Rightarrow> string list \<Rightarrow> string" where
  "join sep [] = []"
| "join sep [x] = x"
| "join sep (x # y # ys) = x @ sep @ join sep (y # ys)"

text \<open>
  The text an f-string gives a list of strings: \<^verbatim>\<open>repr\<close> of each element in single
  quotes (no element of \<open>FONT_FILES\<close> holds a quote, a backslash or a control character).
\<close>

definition py_repr_str :: "string \<Rightarrow> string" where
  "py_repr_str s = CHR 0x27 # s @ [CHR 0x27]"

definition py_repr_list :: "string list \<Rightarrow> string" where
  "py_repr_list xs = ''['' @ join '', '' (map py_repr_str xs) @ '']''"

subsection \<open>Font lookup\<close>

text \<open>
  What the lookup reads from its environment: \<^verbatim>\<open>platform.system()\<close>, \<^verbatim>\<open>Path.home()\<close>,
  \<^verbatim>\<open>Path.exists\<close> and \<^verbatim>\<open>Path.rglob\<close>. A path is the list of its parts.
\<close>

type_synonym path = "string list"

record filesystem =
  platform_system :: string
  home :: path
  path_exists :: "path \<Rightarrow> bool"
  rglob :: "path \<Rightarrow> string \<Rightarrow> path list"

definition search_paths :: "filesystem \<Rightarrow> path list" where
  "search_paths fs =
     (if platform_system fs = ''Darwin'' then
        [[''/'', ''System'', ''Library'', ''Fonts''], [''/'', ''Library'', ''Fonts''],
         home fs @ [''Library'', ''Fonts'']]
      else if platform_system fs = ''Windows'' then
        [[''C:'', ''Windows'', ''Fonts'']]
      else
        [[''/'', ''usr'', ''share'', ''fonts''], [''/'', ''usr'', ''local'', ''share'', ''fonts''],
         home fs @ [''.fonts'']])"

fun search_bases :: "filesystem \<Rightarrow> string \<Rightarrow> path list \<Rightarrow> path option" where
  "search_bases fs filename [] = None"
| "search_bases fs filename (base # bases) =
     (if path_exists fs (base @ [filename]) then Some (base @ [filename])
      else (case rglob fs base filename of
              m # ms \<Rightarrow> Some m
            | [] \<Rightarrow> search_bases fs filename bases))"

fun search_filenames :: "filesystem \<Rightarrow> string list \<Rightarrow> path option" where
  "search_filenames fs [] = None"
| "search_filenames fs (filename # filenames) =
     (case search_bases fs filename (search_paths fs) of
        Some p \<Rightarrow> Some p
      | None \<Rightarrow> search_filenames fs filenames)"

definition get_font_path :: "filesystem \<Rightarrow> FontT \<Rightarrow> error + path" where
  "get_font_path fs font =
     (case search_filenames fs (FONT_FILES font) of
        Some p \<Rightarrow> Inr p
      | None \<Rightarrow> Inl (FileNotFoundError (''Font file not found: '' @ py_repr_list (FONT_FILES font))))"

subsection \<open>FontCache\<close>

text \<open>
  \<open>'face\<close> is the shaping engine's face object. \<open>load_face\<close> stands for
  \<^verbatim>\<open>hb.Face(hb.Blob.from_file_path(str(path)))\<close> on a path the lookup has found, and
  \<open>face_upem\<close> for \<^verbatim>\<open>face.upem\<close>.
\<close>

record 'face FontCache =
  faces :: "FontT \<rightharpoonup> 'face"
  upem :: "FontT \<rightharpoonup> int"

fun load_loop ::
  "filesystem \<Rightarrow> (path \<Rightarrow> 'face) \<Rightarrow> ('face \<Rightarrow> int) \<Rightarrow> FontT list \<Rightarrow> 'face FontCache
     \<Rightarrow> error + 'face FontCache" where
  "load_loop fs load_face face_upem [] self = Inr self"
| "load_loop fs load_face face_upem (font_name # to_load) self =
     (case get_font_path fs font_name of
        Inl e \<Rightarrow> Inl e
      | Inr p \<Rightarrow>
          load_loop fs load_face face_upem to_load
            (self\<lparr>faces := (faces self)(font_name \<mapsto> load_face p),
                  upem := (upem self)(font_name \<mapsto> face_upem (load_face p))\<rparr>))"

definition FontCache_init ::
  "filesystem \<Rightarrow> (path \<Rightarrow> 'face) \<Rightarrow> ('face \<Rightarrow> int) \<Rightarrow> FontT list option \<Rightarrow> error + 'face FontCache" where
  "FontCache_init fs load_face face_upem fonts =
     load_loop fs load_face face_upem
       (case fonts of Some fs' \<Rightarrow> fs' | None \<Rightarrow> FONT_FILES_keys)
       \<lparr>faces = Map.empty, upem = Map.empty\<rparr>"

subsection \<open>Width\<close>

text \<open>Python's \<^verbatim>\<open>round(x)\<close> on a float: to the nearest integer, a tie to the even one.\<close>

definition py_round :: "real \<Rightarrow> int" where
  "py_round x =
     (if x - of_int \<lfloor>x\<rfloor> < 1 / 2 then \<lfloor>x\<rfloor>
      else if x - of_int \<lfloor>x\<rfloor> > 1 / 2 then \<lfloor>x\<rfloor> + 1
      else if even \<lfloor>x\<rfloor> then \<lfloor>x\<rfloor> else \<lfloor>x\<rfloor> + 1)"

text \<open>
  \<open>shape face scale features string\<close> stands for \<^verbatim>\<open>buf.glyph_positions\<close> after the run
  of the shaping engine over a buffer holding \<open>string\<close>: the \<^verbatim>\<open>x_advance\<close> of each glyph
  position, or \<open>None\<close> when the engine has no glyph positions for the buffer, as it has
  none for a buffer holding the empty string. Python's \<^verbatim>\<open>sum\<close> over \<^verbatim>\<open>None\<close> raises
  \<^verbatim>\<open>TypeError\<close>; the division comes after it.
\<close>

type_synonym 'face shaper =
  "'face \<Rightarrow> int \<times> int \<Rightarrow> (string \<times> bool) list \<Rightarrow> string \<Rightarrow> int list option"

definition features_of :: "bool \<Rightarrow> bool \<Rightarrow> (string \<times> bool) list" where
  "features_of kerning ligatures =
     (if \<not> kerning then [(''kern'', False)] else []) @ (if \<not> ligatures then [(''liga'', False)] else [])"

definition calculate_width ::
  "'face shaper \<Rightarrow> string \<Rightarrow> FontT \<Rightarrow> int \<Rightarrow> 'face FontCache \<Rightarrow> bool \<Rightarrow> bool \<Rightarrow> error + int" where
  "calculate_width shape string font sz cache kerning ligatures =
     (case faces cache font of
        None \<Rightarrow> Inl KeyError
      | Some face \<Rightarrow>
          (case upem cache font of
             None \<Rightarrow> Inl KeyError
           | Some u \<Rightarrow>
               (case shape face (u, u) (features_of kerning ligatures) string of
                  None \<Rightarrow> Inl TypeError
                | Some positions \<Rightarrow>
                    if u = 0 then Inl ZeroDivisionError
                    else Inr (py_round (real_of_int (sum_list positions * sz) / real_of_int u)))))"

section \<open>pdf\_info.py\<close>

definition FONT_NAME_MAP :: "(string \<times> FontT) list" where
  "FONT_NAME_MAP =
     [(''liberation sans'', Arial),
      (''liberation mono'', Courier_New),
      (''liberation serif'', Times_New_Roman),
      (''arial'', Arial),
      (''arimo'', Arial),
      (''helvetica'', Helvetica),
      (''calibri'', Calibri),
      (''carlito'', Calibri),
      (''cambria'', Cambria),
      (''caladea'', Cambria),
      (''courier'', Courier_New),
      (''cousine'', Courier_New),
      (''times'', Times_New_Roman),
      (''tinos'', Times_New_Roman)]"

text \<open>
  \<^verbatim>\<open>str.lower\<close> on the code points below 256: the letters A to Z and the accented
  capitals (all of 192 to 222 but the multiplication sign) move up by 32.
\<close>

definition lower_char :: "char \<Rightarrow> char" where
  "lower_char c =
     (if (65 \<le> (of_char c :: nat) \<and> (of_char c :: nat) \<le> 90)
         \<or> (192 \<le> (of_char c :: nat) \<and> (of_char c :: nat) \<le> 222 \<and> (of_char c :: nat) \<noteq> 215)
      then char_of ((of_char c :: nat) + 32) else c)"

definition lower :: "string \<Rightarrow> string" where
  "lower s = map lower_char s"

fun match_loop :: "(string \<times> FontT) list \<Rightarrow> string \<Rightarrow> FontT option" where
  "match_loop [] lowered = None"
| "match_loop ((substring, font_t) # rules) lowered =
     (if str_contains substring lowered then Some font_t else match_loop rules lowered)"

definition match_font :: "string \<Rightarrow> FontT option" where
  "match_font pdf_font_name = match_loop FONT_NAME_MAP (lower pdf_font_name)"

record FontInfo =
  font_name :: string
  font_size :: int
  bold :: bool
  italic :: bool
  monospaced :: bool
  serif :: bool
  color :: int
  matched_font :: "FontT option"

record TextSpan =
  span_text :: string
  span_font :: FontInfo
  span_page :: nat
  span_bbox :: "real \<times> real \<times> real \<times> real"

text \<open>\<^verbatim>\<open>str.isspace\<close> on the code points below 256, and \<^verbatim>\<open>str.strip()\<close>.\<close>

definition isspace :: "char \<Rightarrow> bool" where
  "isspace c = ((of_char c :: nat) \<in> {9, 10, 11, 12, 13, 28, 29, 30, 31, 32, 133, 160})"

definition strip :: "string \<Rightarrow> string" where
  "strip s = rev (dropWhile isspace (rev (dropWhile isspace s)))"

definition make_span :: "nat \<Rightarrow> line_span \<Rightarrow> TextSpan" where
  "make_span page_num s =
     \<lparr>span_text = raw_text s,
      span_font =
        \<lparr>font_name = raw_font s,
         font_size = py_round (raw_size s),
         bold = (raw_flags s AND 16 \<noteq> 0),
         italic = (raw_flags s AND 2 \<noteq> 0),
         monospaced = (raw_flags s AND 8 \<noteq> 0),
         serif = (raw_flags s AND 4 \<noteq> 0),
         color = raw_color s,
         matched_font = match_font (raw_font s)\<rparr>,
      span_page = page_num,
      span_bbox = raw_bbox s\<rparr>"

text \<open>The spans appended for one line, one block and one page, in the order of the loops.\<close>

definition line_spans :: "nat \<Rightarrow> line_span list \<Rightarrow> TextSpan list" where
  "line_spans page_num runs = map (make_span page_num) (filter (\<lambda>s. strip (raw_text s) \<noteq> []) runs)"

definition block_spans :: "nat \<Rightarrow> block \<Rightarrow> TextSpan list" where
  "block_spans page_num b =
     (if block_type b \<noteq> 0 then [] else concat (map (line_spans page_num) (block_lines b)))"

fun extract_loop :: "(nat \<times> fitz_page) list \<Rightarrow> TextSpan list \<Rightarrow> error + TextSpan list" where
  "extract_loop [] spans = Inr spans"
| "extract_loop ((page_num, p) # ps) spans =
     (case get_text p of
        Inl e \<Rightarrow> Inl e
      | Inr blocks \<Rightarrow> extract_loop ps (spans @ concat (map (block_spans page_num) blocks)))"

definition extract_font_info :: "error + document \<Rightarrow> (error + TextSpan list) \<times> handle_state" where
  "extract_font_info opened =
     then_do (fitz_open opened) (\<lambda>doc.
     then_do (call (extract_loop (enumerate doc) [])) (\<lambda>spans.
     then_do doc_close (\<lambda>u.
     call (Inr spans))))
     NotAcquired"

section \<open>Concrete inputs\<close>

text \<open>
  A page of 30 by 60 points rendered to a raster of 2 by 6 pixels: five dark rows and a
  light one. One pixel is 15 points wide and 10 points high.
\<close>

definition example_pixmap :: pixmap where
  "example_pixmap = \<lparr>pix_width = 2, pix_height = 6,
      samples = [0, 0,  0, 0,  0, 0,  0, 0,  0, 0,  255, 255]\<rparr>"

definition example_page :: fitz_page where
  "example_page = \<lparr>page_rect = \<lparr>x0 = 0, y0 = 0, x1 = 30, y1 = 60\<rparr>,
      annots = Inr [], get_drawings = Inr [], get_pixmap = (\<lambda>dpi. Inr example_pixmap),
      get_text = Inr []\<rparr>"

text \<open>
  A page of 30 by 70 points rendered to 2 by 7 pixels: three dark rows, a light row and
  three dark rows again.
\<close>

definition recurring_page :: fitz_page where
  "recurring_page = \<lparr>page_rect = \<lparr>x0 = 0, y0 = 0, x1 = 30, y1 = 70\<rparr>,
      annots = Inr [], get_drawings = Inr [],
      get_pixmap = (\<lambda>dpi. Inr \<lparr>pix_width = 2, pix_height = 7,
                                    samples = [0, 0,  0, 0,  0, 0,  255, 255,  0, 0,  0, 0,  0, 0]\<rparr>),
      get_text = Inr []\<rparr>"

text \<open>
  Three raster rows of 8 pixels whose dark run moves right by two pixels from each row to
  the next.
\<close>

definition drift_samples :: "nat list" where
  "drift_samples =
     [0, 0, 0, 0, 255, 255, 255, 255,
      255, 255, 0, 0, 0, 0, 255, 255,
      255, 255, 255, 255, 0, 0, 0, 0]"

text \<open>
  The example page with a redaction annotation, a text annotation and a black rectangle
  drawn on it.
\<close>

definition fused_page :: fitz_page where
  "fused_page = example_page
     \<lparr>annots := Inr [\<lparr>annot_type = 12, annot_rect = \<lparr>x0 = 5, y0 = 40, x1 = 25, y1 = 55\<rparr>\<rparr>,
                     \<lparr>annot_type = 0, annot_rect = \<lparr>x0 = 1, y0 = 1, x1 = 2, y1 = 2\<rparr>\<rparr>],
      get_drawings := Inr [\<lparr>drawing_fill = FillTuple [0, 0, 0],
                            drawing_rect = \<lparr>x0 = 5, y0 = 20, x1 = 25, y1 = 30\<rparr>\<rparr>]\<rparr>"

text \<open>A blank page of 30 by 60 points whose raster is one white pixel.\<close>

definition blank_page :: fitz_page where
  "blank_page = \<lparr>page_rect = \<lparr>x0 = 0, y0 = 0, x1 = 30, y1 = 60\<rparr>,
      annots = Inr [], get_drawings = Inr [],
      get_pixmap = (\<lambda>dpi. Inr \<lparr>pix_width = 1, pix_height = 1, samples = [255]\<rparr>),
      get_text = Inr []\<rparr>"

text \<open>The blank page with a redaction annotation whose rectangle is a single point.\<close>

definition degenerate_page :: fitz_page where
  "degenerate_page = blank_page
     \<lparr>annots := Inr [\<lparr>annot_type = 12, annot_rect = \<lparr>x0 = 10, y0 = 10, x1 = 10, y1 = 10\<rparr>\<rparr>]\<rparr>"

text \<open>A page that the document engine fails to render and to read text from.\<close>

definition failing_page :: fitz_page where
  "failing_page = blank_page\<lparr>get_pixmap := (\<lambda>dpi. Inl FitzError), get_text := Inl FitzError\<rparr>"

text \<open>
  A page with one text block of one line holding two runs, the second of spaces only, and
  an image block.
\<close>

definition text_page :: fitz_page where
  "text_page = blank_page
     \<lparr>get_text := Inr [\<lparr>block_type = 0,
                          block_lines = [[LineSpan ''  Hi '' ''ArialMT'' (119 / 10) 20 0 (10, 10, 40, 22),
                                          LineSpan ''   '' ''ArialMT'' 12 0 0 (40, 10, 50, 22)]]\<rparr>,
                        \<lparr>block_type = 1, block_lines = []\<rparr>]\<rparr>"

text \<open>
  Two file systems on Linux: one with no font file at all, one that holds
  \<^verbatim>\<open>/usr/share/fonts/Arial.ttf\<close> and nothing else.
\<close>

definition empty_fs :: filesystem where
  "empty_fs = \<lparr>platform_system = ''Linux'', home = [''/'', ''root''],
      path_exists = (\<lambda>p. False), rglob = (\<lambda>base filename. [])\<rparr>"

definition arial_fs :: filesystem where
  "arial_fs = empty_fs\<lparr>path_exists := (\<lambda>p. p = [''/'', ''usr'', ''share'', ''fonts'', ''Arial.ttf''])\<rparr>"

text \<open>
  A shaper that gives every character one glyph of advance 455 and has no glyph positions
  for the empty string, and a cache that holds one face for Arial with 2048 units per em
  (the advance of the letter i in Arial).
\<close>

definition narrow_shape :: "unit shaper" where
  "narrow_shape face scale features string =
     (if string = [] then None else Some (map (\<lambda>c. 455) string))"

definition narrow_cache :: "unit FontCache" where
  "narrow_cache = \<lparr>faces = [Arial \<mapsto> ()], upem = [Arial \<mapsto> 2048]\<rparr>"

text \<open>
  A shaper for a face of 1000 units per em in which every character has a glyph of advance
  550 and, unless the feature \<open>liga\<close> is switched off, two letters f in a row become one
  ligature glyph of advance 375. Every glyph advance is positive.
\<close>

fun ligature_glyphs :: "string \<Rightarrow> int list" where
  "ligature_glyphs (a # b # rest) =
     (if a = CHR ''f'' \<and> b = CHR ''f'' then 375 # ligature_glyphs rest
      else 550 # ligature_glyphs (b # rest))"
| "ligature_glyphs [a] = [550]"
| "ligature_glyphs [] = []"

definition ligature_shape :: "unit shaper" where
  "ligature_shape face scale features string =
     (if string = [] then None
      else if (''liga'', False) \<in> set features then Some (map (\<lambda>c. 550) string)
      else Some (ligature_glyphs string))"

definition ligature_cache :: "unit FontCache" where
  "ligature_cache = \<lparr>faces = [Arial \<mapsto> ()], upem = [Arial \<mapsto> 1000]\<rparr>"

section \<open>Sequencing and enumeration\<close>

lemma find_redactions_unfold:
  "find_redactions opened =
     (case opened of
        Inl e \<Rightarrow> (Inl e, NotAcquired)
      | Inr doc \<Rightarrow>
          (case find_annotation_redactions doc of
             Inl e \<Rightarrow> (Inl e, Open)
           | Inr results1 \<Rightarrow>
               (case find_vector_redactions doc of
                  Inl e \<Rightarrow> (Inl e, Open)
                | Inr results2 \<Rightarrow>
                    (case find_image_redactions doc 150 80 5 15 of
                       Inl e \<Rightarrow> (Inl e, Open)
                     | Inr results3 \<Rightarrow>
                         (Inr (sort_key sort_key_of (results1 @ results2 @ results3)), Closed)))))"
  by (simp add: find_redactions_def then_do_def fitz_open_def call_def doc_close_def
        split: sum.splits)

lemma extract_font_info_unfold:
  "extract_font_info opened =
     (case opened of
        Inl e \<Rightarrow> (Inl e, NotAcquired)
      | Inr doc \<Rightarrow>
          (case extract_loop (enumerate doc) [] of
             Inl e \<Rightarrow> (Inl e, Open)
           | Inr spans \<Rightarrow> (Inr spans, Closed)))"
  by (simp add: extract_font_info_def then_do_def fitz_open_def call_def doc_close_def
        split: sum.splits)

lemma enumerate_snd: "(n, p) \<in> set (enumerate xs) \<Longrightarrow> p \<in> set xs"
  unfolding enumerate_def by (rule set_zip_rightD)

lemma enumerate_single: "enumerate [p] = [(0, p)]"
  by (simp add: enumerate_def)

lemma map_snd_enumerate: "map snd (enumerate xs) = xs"
  by (simp add: enumerate_def)

section \<open>Properties of the raster scanner\<close>

lemma scan_loop_snoc:
  "scan_loop smp w thr mrp pn sx sy (ys @ [y]) st =
     (case scan_loop smp w thr mrp pn sx sy ys st of
        Inl e \<Rightarrow> Inl e
      | Inr st' \<Rightarrow>
          (case get_dark_runs smp y w thr mrp of
             Inl e \<Rightarrow> Inl e
           | Inr runs \<Rightarrow> Inr (scan_row pn sx sy y runs st')))"
  by (induction ys arbitrary: st) (auto split: sum.splits)

lemma close_rects_eq:
  "close_rects pn sx sy y (prev_runs, rect_start_y, results) =
     results @ (if min_rows \<le> int y - int rect_start_y
                then map (\<lambda>r. \<lparr>page = pn,
                                 bbox = (real (fst r) * sx, real rect_start_y * sy,
                                         real (snd r) * sx, real y * sy)\<rparr>) prev_runs
                else [])"
  by (simp add: close_rects_def run_box_def)

lemma scan_page_Inr:
  assumes "get_pixmap p dpi = Inr pix"
    and "scan_page dpi thr mwp pn p res0 = Inr out"
  shows "\<exists>st. scan_loop (samples pix) (pix_width pix) thr (min_run_px mwp p pix) pn
                 (scale_x p pix) (scale_y p pix) [0..<pix_height pix] ([], 0, res0) = Inr st
              \<and> out = close_rects pn (scale_x p pix) (scale_y p pix) (pix_height pix) st
              \<and> pix_width pix \<noteq> 0 \<and> pix_height pix \<noteq> 0 \<and> scale_x p pix \<noteq> 0"
  using assms by (auto simp: scan_page_def split: sum.splits if_splits)

lemma scan_loop_append:
  "scan_loop smp w thr mrp pn sx sy (xs @ ys) st =
     (case scan_loop smp w thr mrp pn sx sy xs st of
        Inl e \<Rightarrow> Inl e
      | Inr st' \<Rightarrow> scan_loop smp w thr mrp pn sx sy ys st')"
  by (induction xs arbitrary: st) (auto split: sum.splits)

lemma scan_loop_prefix:
  assumes "scan_loop smp w thr mrp pn sx sy [0..<h] st = Inr st'" and "y < h"
  shows "\<exists>st1 runs. scan_loop smp w thr mrp pn sx sy [0..<y] st = Inr st1
                  \<and> get_dark_runs smp y w thr mrp = Inr runs"
proof -
  from \<open>y < h\<close> have "[0..<h] = [0..<y] @ [y..<h]"
    using upt_add_eq_append [of 0 y "h - y"] by simp
  with \<open>y < h\<close> have "[0..<h] = [0..<y] @ y # [Suc y..<h]"
    by (simp add: upt_conv_Cons)
  with assms(1) show ?thesis
    by (auto simp: scan_loop_append split: sum.splits)
qed


text \<open>
  Claim C1. Let the scan of a page succeed. At every row \<open>y\<close> the loop has a state
  \<open>(prev_runs, rect_start_y, results)\<close> from the rows before it and a run set \<open>runs\<close> of
  the row. If \<open>runs\<close> matches \<open>prev_runs\<close> nothing changes. If not, the region is finalized:
  one box per run of \<open>prev_runs\<close> is appended if and only if the region spanned at least
  \<open>min_rows\<close> rows, each from \<open>rect_start_y\<close> to \<open>y\<close> vertically and from the run's start
  to its end horizontally, scaled to points; a shorter region appends nothing, and the new
  region starts at \<open>y\<close>, so its rows are not counted again. The end of the page finalizes
  the open region the same way, with the raster height as the closing row.
\<close>

theorem scanline_finalization:
  assumes "get_pixmap p dpi = Inr pix"
    and "scan_page dpi dark_threshold min_width_pt page_num p results0 = Inr out"
    and "y < pix_height pix"
  shows "\<exists>prev_runs rect_start_y results runs last_runs last_start_y results'.
           scan_loop (samples pix) (pix_width pix) dark_threshold (min_run_px min_width_pt p pix)
             page_num (scale_x p pix) (scale_y p pix) [0..<y] ([], 0, results0)
             = Inr (prev_runs, rect_start_y, results)
         \<and> get_dark_runs (samples pix) y (pix_width pix) dark_threshold (min_run_px min_width_pt p pix)
             = Inr runs
         \<and> scan_loop (samples pix) (pix_width pix) dark_threshold (min_run_px min_width_pt p pix)
             page_num (scale_x p pix) (scale_y p pix) [0..<Suc y] ([], 0, results0)
             = Inr (if runs_match runs prev_runs run_tolerance then (prev_runs, rect_start_y, results)
                    else (runs, y,
                          results @
                            (if min_rows \<le> int y - int rect_start_y
                             then map (\<lambda>r. \<lparr>page = page_num,
                                              bbox = (real (fst r) * scale_x p pix,
                                                      real rect_start_y * scale_y p pix,
                                                      real (snd r) * scale_x p pix,
                                                      real y * scale_y p pix)\<rparr>) prev_runs
                             else [])))
         \<and> scan_loop (samples pix) (pix_width pix) dark_threshold (min_run_px min_width_pt p pix)
             page_num (scale_x p pix) (scale_y p pix) [0..<pix_height pix] ([], 0, results0)
             = Inr (last_runs, last_start_y, results')
         \<and> out = results' @
             (if min_rows \<le> int (pix_height pix) - int last_start_y
              then map (\<lambda>r. \<lparr>page = page_num,
                               bbox = (real (fst r) * scale_x p pix,
                                       real last_start_y * scale_y p pix,
                                       real (snd r) * scale_x p pix,
                                       real (pix_height pix) * scale_y p pix)\<rparr>) last_runs
              else [])"
proof -
  from scan_page_Inr [OF assms(1,2)] obtain st where
    st: "scan_loop (samples pix) (pix_width pix) dark_threshold (min_run_px min_width_pt p pix)
           page_num (scale_x p pix) (scale_y p pix) [0..<pix_height pix] ([], 0, results0) = Inr st"
    and out: "out = close_rects page_num (scale_x p pix) (scale_y p pix) (pix_height pix) st"
    by blast
  obtain last_runs last_start_y results' where fin: "st = (last_runs, last_start_y, results')"
    by (cases st)
  from scan_loop_prefix [OF st assms(3)] obtain st1 runs where
    pre: "scan_loop (samples pix) (pix_width pix) dark_threshold (min_run_px min_width_pt p pix)
            page_num (scale_x p pix) (scale_y p pix) [0..<y] ([], 0, results0) = Inr st1"
    and row: "get_dark_runs (samples pix) y (pix_width pix) dark_threshold
                (min_run_px min_width_pt p pix) = Inr runs"
    by blast
  obtain prev_runs rect_start_y results where mid: "st1 = (prev_runs, rect_start_y, results)"
    by (cases st1)
  have step: "scan_loop (samples pix) (pix_width pix) dark_threshold (min_run_px min_width_pt p pix)
             page_num (scale_x p pix) (scale_y p pix) [0..<Suc y] ([], 0, results0)
             = Inr (if runs_match runs prev_runs run_tolerance then (prev_runs, rect_start_y, results)
                    else (runs, y,
                          results @
                            (if min_rows \<le> int y - int rect_start_y
                             then map (\<lambda>r. \<lparr>page = page_num,
                                              bbox = (real (fst r) * scale_x p pix,
                                                      real rect_start_y * scale_y p pix,
                                                      real (snd r) * scale_x p pix,
                                                      real y * scale_y p pix)\<rparr>) prev_runs
                             else [])))"
    using pre row unfolding mid by (simp add: scan_loop_snoc scan_row_def close_rects_eq)
  have pre': "scan_loop (samples pix) (pix_width pix) dark_threshold (min_run_px min_width_pt p pix)
            page_num (scale_x p pix) (scale_y p pix) [0..<y] ([], 0, results0)
            = Inr (prev_runs, rect_start_y, results)"
    using pre mid by simp
  have st': "scan_loop (samples pix) (pix_width pix) dark_threshold (min_run_px min_width_pt p pix)
           page_num (scale_x p pix) (scale_y p pix) [0..<pix_height pix] ([], 0, results0)
           = Inr (last_runs, last_start_y, results')"
    using st fin by simp
  have out': "out = results' @
             (if min_rows \<le> int (pix_height pix) - int last_start_y
              then map (\<lambda>r. \<lparr>page = page_num,
                               bbox = (real (fst r) * scale_x p pix,
                                       real last_start_y * scale_y p pix,
                                       real (snd r) * scale_x p pix,
                                       real (pix_height pix) * scale_y p pix)\<rparr>) last_runs
              else [])"
    using out unfolding fin close_rects_eq .
  show ?thesis
    by (intro exI conjI) (fact pre', fact row, fact step, fact st', fact out')
qed

lemma example_scan5:
  "scan_loop (samples example_pixmap) 2 80 1 0 15 10 [0..<5] ([], 0, []) = Inr ([(0, 2)], 0, [])"
  by (simp add: get_dark_runs_def example_pixmap_def upt_rec scan_row_def runs_match_def
        run_tolerance_def close_rects_def)

lemma example_row5: "get_dark_runs (samples example_pixmap) 5 2 80 1 = Inr []"
  by (simp add: get_dark_runs_def example_pixmap_def upt_rec)

lemma example_scale: "scale_x example_page example_pixmap = 15" "scale_y example_page example_pixmap = 10"
  "min_run_px 15 example_page example_pixmap = 1"
  by (simp_all add: scale_x_def scale_y_def min_run_px_def py_int_def example_page_def example_pixmap_def Rect_width_def Rect_height_def)

lemma example_get_pixmap: "get_pixmap example_page dpi = Inr example_pixmap"
  by (simp add: example_page_def)

lemma example_dims: "pix_width example_pixmap = 2" "pix_height example_pixmap = 6"
  by (simp_all add: example_pixmap_def)

lemma example_scan6:
  "scan_loop (samples example_pixmap) 2 80 1 0 15 10 [0..<6] ([], 0, [])
     = Inr ([], 5, [\<lparr>page = 0, bbox = (0, 0, 30, 50)\<rparr>])"
  by (simp add: get_dark_runs_def example_pixmap_def upt_rec scan_row_def runs_match_def
        run_tolerance_def close_rects_def min_rows_def run_box_def)

lemma example_scan_page:
  "scan_page 150 80 15 0 example_page [] = Inr [\<lparr>page = 0, bbox = (0, 0, 30, 50)\<rparr>]"
  by (simp add: scan_page_def example_get_pixmap example_scale example_dims example_scan6
        close_rects_def)

lemma recurring_scan_page: "scan_page 150 80 15 0 recurring_page [] = Inr []"
  by (simp add: scan_page_def recurring_page_def scale_x_def scale_y_def min_run_px_def py_int_def
        Rect_width_def Rect_height_def get_dark_runs_def upt_rec scan_row_def runs_match_def
        run_tolerance_def close_rects_def min_rows_def)

text \<open>
  On the example page the region of rows 0 to 4 is closed by row 5 and gives one box from
  row 0 to row 5, that is from 0 to 50 points. On the page where the same run set fills
  rows 0 to 2 and again rows 4 to 6, neither region reaches five rows and no box is
  appended.
\<close>

theorem scanline_finalization_witness:
  "get_pixmap example_page 150 = Inr example_pixmap
   \<and> scan_page 150 80 15 0 example_page [] = Inr [\<lparr>page = 0, bbox = (0, 0, 30, 50)\<rparr>]
   \<and> 5 < pix_height example_pixmap
   \<and> scan_loop (samples example_pixmap) 2 80 1 0 15 10 [0..<5] ([], 0, []) = Inr ([(0, 2)], 0, [])
   \<and> get_dark_runs (samples example_pixmap) 5 2 80 1 = Inr []
   \<and> \<not> runs_match [] [(0, 2)] run_tolerance
   \<and> scan_loop (samples example_pixmap) 2 80 1 0 15 10 [0..<Suc 5] ([], 0, [])
       = Inr ([], 5, [\<lparr>page = 0, bbox = (0, 0, 30, 50)\<rparr>])
   \<and> scan_page 150 80 15 0 recurring_page [] = Inr []"
proof -
  have h: "5 < pix_height example_pixmap" by (simp add: example_dims)
  have nm: "\<not> runs_match [] [(0, 2)] run_tolerance" by (simp add: runs_match_def)
  from scanline_finalization [OF example_get_pixmap example_scan_page h]
  have "scan_loop (samples example_pixmap) 2 80 1 0 15 10 [0..<Suc 5] ([], 0, [])
       = Inr ([], 5, [\<lparr>page = 0, bbox = (0, 0, 30, 50)\<rparr>])"
    by (simp add: example_scale example_dims example_scan5 example_row5 nm min_rows_def)
  then show ?thesis
    using example_get_pixmap example_scan_page h example_scan5 example_row5 nm
      recurring_scan_page by simp
qed

lemma runs_match_Nil_right: "\<not> runs_match runs [] tol"
  by (auto simp: runs_match_def)

lemma scan_loop_anchor:
  assumes "scan_loop smp w thr mrp pn sx sy [0..<y] ([], 0, results0) = Inr (prev_runs, rect_start_y, results)"
    and "0 < y"
  shows "rect_start_y < y
       \<and> get_dark_runs smp rect_start_y w thr mrp = Inr prev_runs
       \<and> (\<forall>j. rect_start_y < j \<and> j < y \<longrightarrow>
             (\<exists>r. get_dark_runs smp j w thr mrp = Inr r \<and> runs_match r prev_runs run_tolerance))"
  using assms
proof (induction y arbitrary: prev_runs rect_start_y results)
  case 0
  then show ?case by simp
next
  case (Suc y)
  from Suc.prems(1) obtain st1 runs where
    pre: "scan_loop smp w thr mrp pn sx sy [0..<y] ([], 0, results0) = Inr st1"
    and row: "get_dark_runs smp y w thr mrp = Inr runs"
    and step: "scan_row pn sx sy y runs st1 = (prev_runs, rect_start_y, results)"
    by (auto simp: scan_loop_snoc split: sum.splits)
  obtain p1 s1 r1 where st1: "st1 = (p1, s1, r1)" by (cases st1)
  show ?case
  proof (cases "runs_match runs p1 run_tolerance")
    case False
    with step st1 have "prev_runs = runs" "rect_start_y = y"
      by (simp_all add: scan_row_def)
    with row show ?thesis by auto
  next
    case True
    with step st1 have same: "prev_runs = p1" "rect_start_y = s1"
      by (simp_all add: scan_row_def)
    have "0 < y"
    proof (rule ccontr)
      assume "\<not> 0 < y"
      with pre st1 have "p1 = []" by simp
      with True show False by (simp add: runs_match_Nil_right)
    qed
    from Suc.IH [OF pre [unfolded st1] this]
    have ih: "s1 < y" "get_dark_runs smp s1 w thr mrp = Inr p1"
      "\<forall>j. s1 < j \<and> j < y \<longrightarrow>
             (\<exists>r. get_dark_runs smp j w thr mrp = Inr r \<and> runs_match r p1 run_tolerance)"
      by blast+
    have "\<forall>j. s1 < j \<and> j < Suc y \<longrightarrow>
             (\<exists>r. get_dark_runs smp j w thr mrp = Inr r \<and> runs_match r p1 run_tolerance)"
    proof (intro allI impI)
      fix j assume j: "s1 < j \<and> j < Suc y"
      show "\<exists>r. get_dark_runs smp j w thr mrp = Inr r \<and> runs_match r p1 run_tolerance"
      proof (cases "j = y")
        case True
        with row \<open>runs_match runs p1 run_tolerance\<close> show ?thesis by simp
      next
        case False
        with j have "s1 < j \<and> j < y" by simp
        with ih(3) show ?thesis by blast
      qed
    qed
    with ih(1,2) same show ?thesis by simp
  qed
qed


text \<open>
  Claim C9. After at least one row, \<open>prev_runs\<close> is the run set of the row \<open>rect_start_y\<close>
  at which the open region started (the anchor row), every later row of the region matched
  that run set, and the next row is compared with it: on a match the state, \<open>prev_runs\<close>
  included, is left as it is; otherwise the region closes at that row. So a drift that stays
  within the tolerance from row to row closes the region at the first row that is further
  than the tolerance from the anchor row.
\<close>

theorem anchor_row_comparison:
  assumes "scan_loop smp w thr mrp pn sx sy [0..<y] ([], 0, results0) = Inr (prev_runs, rect_start_y, results)"
    and "0 < y"
    and "get_dark_runs smp y w thr mrp = Inr runs"
  shows "rect_start_y < y
       \<and> get_dark_runs smp rect_start_y w thr mrp = Inr prev_runs
       \<and> (\<forall>j. rect_start_y < j \<and> j < y \<longrightarrow>
             (\<exists>r. get_dark_runs smp j w thr mrp = Inr r \<and> runs_match r prev_runs run_tolerance))
       \<and> scan_loop smp w thr mrp pn sx sy [0..<Suc y] ([], 0, results0) =
           Inr (if runs_match runs prev_runs run_tolerance then (prev_runs, rect_start_y, results)
                else (runs, y, close_rects pn sx sy y (prev_runs, rect_start_y, results)))"
proof -
  have "scan_loop smp w thr mrp pn sx sy [0..<Suc y] ([], 0, results0) =
           Inr (if runs_match runs prev_runs run_tolerance then (prev_runs, rect_start_y, results)
                else (runs, y, close_rects pn sx sy y (prev_runs, rect_start_y, results)))"
    using assms(1,3) by (simp add: scan_loop_snoc scan_row_def)
  with scan_loop_anchor [OF assms(1,2)] show ?thesis by blast
qed

lemma drift_rows:
  "get_dark_runs drift_samples 0 8 80 1 = Inr [(0, 4)]"
  "get_dark_runs drift_samples 1 8 80 1 = Inr [(2, 6)]"
  "get_dark_runs drift_samples 2 8 80 1 = Inr [(4, 8)]"
  by (simp_all add: get_dark_runs_def drift_samples_def upt_rec)

lemma drift_scan2:
  "scan_loop drift_samples 8 80 1 0 1 1 [0..<2] ([], 0, []) = Inr ([(0, 4)], 0, [])"
  by (simp add: upt_rec get_dark_runs_def drift_samples_def scan_row_def runs_match_def
        run_tolerance_def close_rects_def)

text \<open>
  In the drifting raster row 2 is within the tolerance of row 1 but not of row 0, the
  anchor: the region closes at row 2.
\<close>

theorem anchor_row_comparison_witness:
  "scan_loop drift_samples 8 80 1 0 1 1 [0..<2] ([], 0, []) = Inr ([(0, 4)], 0, [])
   \<and> (0::nat) < 2
   \<and> get_dark_runs drift_samples 0 8 80 1 = Inr [(0, 4)]
   \<and> get_dark_runs drift_samples 1 8 80 1 = Inr [(2, 6)]
   \<and> get_dark_runs drift_samples 2 8 80 1 = Inr [(4, 8)]
   \<and> runs_match [(2, 6)] [(0, 4)] run_tolerance
   \<and> runs_match [(4, 8)] [(2, 6)] run_tolerance
   \<and> \<not> runs_match [(4, 8)] [(0, 4)] run_tolerance
   \<and> scan_loop drift_samples 8 80 1 0 1 1 [0..<Suc 2] ([], 0, []) = Inr ([(4, 8)], 2, [])"
proof -
  have pos: "(0::nat) < 2" by simp
  have m: "runs_match [(2, 6)] [(0, 4)] run_tolerance" "runs_match [(4, 8)] [(2, 6)] run_tolerance"
    "\<not> runs_match [(4, 8)] [(0, 4)] run_tolerance"
    by (simp_all add: runs_match_def run_tolerance_def)
  from anchor_row_comparison [OF drift_scan2 pos drift_rows(3)]
  have "scan_loop drift_samples 8 80 1 0 1 1 [0..<Suc 2] ([], 0, []) = Inr ([(4, 8)], 2, [])"
    by (simp add: m close_rects_def min_rows_def)
  with drift_scan2 drift_rows m show ?thesis by simp
qed

section \<open>Properties of the font resolver\<close>

lemma str_contains_sublist: "str_contains sub s \<longleftrightarrow> sublist sub s"
  by (induction s) (auto simp: sublist_Cons_right)

lemma match_loop_find:
  "match_loop rules s = map_option snd (find (\<lambda>(substring, font_t). sublist substring s) rules)"
  by (induction rules) (auto simp: str_contains_sublist)

lemma match_loop_None:
  "match_loop rules s = None \<longleftrightarrow> (\<forall>r \<in> set rules. \<not> sublist (fst r) s)"
  by (induction rules) (auto simp: str_contains_sublist split: if_splits)

lemma match_loop_first:
  "i < length rules \<Longrightarrow> sublist (fst (rules ! i)) s \<Longrightarrow> \<forall>j<i. \<not> sublist (fst (rules ! j)) s
     \<Longrightarrow> match_loop rules s = Some (snd (rules ! i))"
proof (induction rules arbitrary: i)
  case Nil
  then show ?case by simp
next
  case (Cons r rules)
  obtain substring font_t where r: "r = (substring, font_t)" by (cases r)
  show ?case
  proof (cases i)
    case 0
    with Cons.prems r show ?thesis by (simp add: str_contains_sublist)
  next
    case (Suc k)
    from Cons.prems(3) Suc have first: "\<not> sublist substring s"
      using r by fastforce
    from Cons.prems(3) Suc have rest: "\<forall>j<k. \<not> sublist (fst (rules ! j)) s"
      by fastforce
    from Cons.prems(1,2) Suc have "k < length rules" "sublist (fst (rules ! k)) s"
      by simp_all
    then have "match_loop rules s = Some (snd (rules ! k))"
      using rest by (rule Cons.IH)
    with first r Suc show ?thesis by (simp add: str_contains_sublist)
  qed
qed

text \<open>
  Claim C4. The resolver lowercases the raw name and returns the family of the first rule of
  \<open>FONT_NAME_MAP\<close>, in list order, whose substring occurs in the lowercased name
  (\<open>sublist\<close> is contiguous containment); it returns \<open>None\<close> exactly when no rule's substring
  occurs. Hence a rule whose substring occurs, with no earlier rule's substring occurring,
  decides the family, whatever later rules' substrings occur in the name as well.
\<close>

theorem match_font_first_matching_rule:
  "match_font pdf_font_name =
     map_option snd (find (\<lambda>(substring, font_t). sublist substring (lower pdf_font_name)) FONT_NAME_MAP)
   \<and> (match_font pdf_font_name = None
        \<longleftrightarrow> (\<forall>r \<in> set FONT_NAME_MAP. \<not> sublist (fst r) (lower pdf_font_name)))
   \<and> (\<forall>i < length FONT_NAME_MAP.
        sublist (fst (FONT_NAME_MAP ! i)) (lower pdf_font_name)
        \<and> (\<forall>j<i. \<not> sublist (fst (FONT_NAME_MAP ! j)) (lower pdf_font_name))
        \<longrightarrow> match_font pdf_font_name = Some (snd (FONT_NAME_MAP ! i)))"
  unfolding match_font_def
  using match_loop_find match_loop_None match_loop_first by blast

text \<open>
  The name \<open>''Times Liberation Mono''\<close> holds both \<open>''times''\<close> (rule 12) and
  \<open>''liberation mono''\<close> (rule 1): the earlier, more specific rule wins. No rule matches
  \<open>''Wingdings''\<close>.
\<close>

theorem match_font_first_matching_rule_witness:
  "lower ''Times Liberation Mono'' = ''times liberation mono''
   \<and> sublist ''times'' (lower ''Times Liberation Mono'')
   \<and> sublist ''liberation mono'' (lower ''Times Liberation Mono'')
   \<and> \<not> sublist ''liberation sans'' (lower ''Times Liberation Mono'')
   \<and> FONT_NAME_MAP ! 1 = (''liberation mono'', Courier_New)
   \<and> match_font ''Times Liberation Mono'' = Some Courier_New
   \<and> match_font ''Wingdings'' = None"
proof -
  have low: "lower ''Times Liberation Mono'' = ''times liberation mono''" by code_simp
  have low2: "lower ''Wingdings'' = ''wingdings''" by code_simp
  have rule1: "FONT_NAME_MAP ! 1 = (''liberation mono'', Courier_New)"
    by (simp add: FONT_NAME_MAP_def)
  have len: "1 < length FONT_NAME_MAP" by (simp add: FONT_NAME_MAP_def)
  have s1: "sublist ''times'' (lower ''Times Liberation Mono'')"
    unfolding low str_contains_sublist [symmetric] by simp
  have s2: "sublist ''liberation mono'' (lower ''Times Liberation Mono'')"
    unfolding low str_contains_sublist [symmetric] by simp
  have s3: "\<not> sublist ''liberation sans'' (lower ''Times Liberation Mono'')"
    unfolding low str_contains_sublist [symmetric] by simp
  have before: "\<forall>j<1. \<not> sublist (fst (FONT_NAME_MAP ! j)) (lower ''Times Liberation Mono'')"
    using s3 by (simp add: FONT_NAME_MAP_def)
  have m1: "match_font ''Times Liberation Mono'' = Some Courier_New"
    using match_font_first_matching_rule [of "''Times Liberation Mono''"] len s2 before rule1
    by (metis snd_conv fst_conv)
  have none: "\<forall>r \<in> set FONT_NAME_MAP. \<not> sublist (fst r) (lower ''Wingdings'')"
    unfolding low2 str_contains_sublist [symmetric] by (simp add: FONT_NAME_MAP_def)
  have m2: "match_font ''Wingdings'' = None"
    using match_font_first_matching_rule [of "''Wingdings''"] none by blast
  show ?thesis using low s1 s2 s3 rule1 m1 m2 by blast
qed

section \<open>Properties of the fused detector\<close>

lemma annotation_loop_set:
  "annotation_loop ps results = Inr out \<Longrightarrow> b \<in> set out \<Longrightarrow>
     b \<in> set results \<or> (\<exists>n p as. (n, p) \<in> set ps \<and> annots p = Inr as \<and> b \<in> set (annot_boxes n as))"
proof (induction ps results rule: annotation_loop.induct)
  case (1 results)
  then show ?case by simp
next
  case (2 page_num p ps results)
  from "2.prems"(1) obtain as where as: "annots p = Inr as"
    and rest: "annotation_loop ps (results @ annot_boxes page_num as) = Inr out"
    by (auto split: sum.splits)
  from "2.IH" [OF as rest "2.prems"(2)] as show ?case by auto
qed

lemma annot_boxes_positive:
  assumes "b \<in> set (annot_boxes n as)"
    and "\<forall>a \<in> set as. annot_type a = PDF_ANNOT_REDACT \<longrightarrow>
           x0 (annot_rect a) < x1 (annot_rect a) \<and> y0 (annot_rect a) < y1 (annot_rect a)"
  shows "0 < width b \<and> 0 < height b"
  using assms by (auto simp: annot_boxes_def width_def height_def)

lemma vector_loop_set:
  "vector_loop ps results = Inr out \<Longrightarrow> b \<in> set out \<Longrightarrow>
     b \<in> set results \<or> (\<exists>n ds. b \<in> set (drawing_boxes n ds))"
proof (induction ps results rule: vector_loop.induct)
  case (1 results)
  then show ?case by simp
next
  case (2 page_num p ps results)
  from "2.prems"(1) obtain ds where ds: "get_drawings p = Inr ds"
    and rest: "vector_loop ps (results @ drawing_boxes page_num ds) = Inr out"
    by (auto split: sum.splits)
  from "2.IH" [OF ds rest "2.prems"(2)] show ?case by auto
qed

lemma drawing_boxes_size:
  assumes "b \<in> set (drawing_boxes n ds)"
  shows "15 \<le> width b \<and> 5 \<le> height b"
proof -
  from assms obtain d where d: "is_redaction_drawing d"
    and b: "b = \<lparr>page = n,
                 bbox = (x0 (drawing_rect d), y0 (drawing_rect d), x1 (drawing_rect d), y1 (drawing_rect d))\<rparr>"
    by (auto simp: drawing_boxes_def)
  from d have "15 \<le> Rect_width (drawing_rect d)" "5 \<le> Rect_height (drawing_rect d)"
    by (cases "drawing_fill d"; simp add: is_redaction_drawing_def)+
  then have "15 \<le> x1 (drawing_rect d) - x0 (drawing_rect d)"
    "5 \<le> y1 (drawing_rect d) - y0 (drawing_rect d)"
    by (simp_all add: Rect_width_def Rect_height_def max_def split: if_splits)
  with b show ?thesis by (simp add: width_def height_def)
qed

lemma dark_runs_loop_valid:
  assumes "dark_runs_loop smp off thr mw xs (runs, in_run, start) = Inr (runs', in_run', start')"
    and "sorted_wrt (<) xs" and "\<forall>x \<in> set xs. x < w"
    and "\<forall>r \<in> set runs. fst r < snd r"
    and "in_run \<longrightarrow> start < w \<and> (\<forall>x \<in> set xs. start < x)"
  shows "(\<forall>r \<in> set runs'. fst r < snd r) \<and> (in_run' \<longrightarrow> start' < w)"
  using assms
proof (induction xs arbitrary: runs in_run start)
  case Nil
  then show ?case by simp
next
  case (Cons x xs)
  from Cons.prems(2) have sorted: "sorted_wrt (<) xs" and later: "\<forall>x' \<in> set xs. x < x'"
    by simp_all
  from Cons.prems(3) have bound: "\<forall>x \<in> set xs. x < w" and xw: "x < w" by simp_all
  from Cons.prems(1) have inrange: "\<not> length smp \<le> off + x"
    by (auto split: if_splits)
  show ?case
  proof (cases "int (smp ! (off + x)) < thr")
    case True
    with Cons.prems(1) inrange have
      next_call: "dark_runs_loop smp off thr mw xs
            (if \<not> in_run then (runs, True, x) else (runs, in_run, start)) = Inr (runs', in_run', start')"
      by simp
    show ?thesis
    proof (cases in_run)
      case True
      with next_call have "dark_runs_loop smp off thr mw xs (runs, in_run, start) = Inr (runs', in_run', start')"
        by simp
      from Cons.IH [OF this sorted bound Cons.prems(4)] Cons.prems(5) show ?thesis by simp
    next
      case False
      with next_call have "dark_runs_loop smp off thr mw xs (runs, True, x) = Inr (runs', in_run', start')"
        by simp
      from Cons.IH [OF this sorted bound Cons.prems(4)] xw later show ?thesis by simp
    qed
  next
    case False
    with Cons.prems(1) inrange have
      next_call: "dark_runs_loop smp off thr mw xs
          (if in_run then
             ((if int x - int start \<ge> mw then runs @ [(start, x)] else runs), False, start)
           else (runs, in_run, start)) = Inr (runs', in_run', start')"
      by simp
    show ?thesis
    proof (cases in_run)
      case True
      with Cons.prems(5) have sx: "start < x" by simp
      define runs1 where "runs1 = (if int x - int start \<ge> mw then runs @ [(start, x)] else runs)"
      from True next_call have call: "dark_runs_loop smp off thr mw xs (runs1, False, start) = Inr (runs', in_run', start')"
        by (simp add: runs1_def)
      from Cons.prems(4) sx have valid: "\<forall>r \<in> set runs1. fst r < snd r"
        by (simp add: runs1_def)
      from Cons.IH [OF call sorted bound valid] show ?thesis by simp
    next
      case False
      with next_call have "dark_runs_loop smp off thr mw xs (runs, in_run, start) = Inr (runs', in_run', start')"
        by simp
      from Cons.IH [OF this sorted bound Cons.prems(4)] False show ?thesis by simp
    qed
  qed
qed

lemma get_dark_runs_valid:
  assumes "get_dark_runs smp y w thr mw = Inr runs"
  shows "\<forall>r \<in> set runs. fst r < snd r"
proof -
  from assms obtain runs' in_run' start' where
    loop: "dark_runs_loop smp (y * w) thr mw [0..<w] ([], False, 0) = Inr (runs', in_run', start')"
    and runs: "runs = (if in_run' \<and> int w - int start' \<ge> mw then runs' @ [(start', w)] else runs')"
    by (auto simp: get_dark_runs_def split: sum.splits)
  have "(\<forall>r \<in> set runs'. fst r < snd r) \<and> (in_run' \<longrightarrow> start' < w)"
    by (rule dark_runs_loop_valid [OF loop]) simp_all
  with runs show ?thesis by auto
qed


lemma run_box_width:
  assumes "fst r < snd r" and "0 < sx"
  shows "0 < width (run_box pn sx sy s y r)"
proof -
  from assms(1) have "real (fst r) < real (snd r)" by simp
  with assms(2) have "real (fst r) * sx < real (snd r) * sx" by simp
  then show ?thesis by (simp add: run_box_def width_def)
qed

lemma close_rects_wide:
  assumes "\<forall>r \<in> set prev_runs. fst r < snd r" and "0 < sx"
    and "\<forall>b \<in> set results. 0 < width b"
  shows "\<forall>b \<in> set (close_rects pn sx sy y (prev_runs, rect_start_y, results)). 0 < width b"
  using assms by (auto simp: close_rects_def run_box_width)

lemma scan_row_wide:
  assumes "scan_row pn sx sy y runs (prev_runs, rect_start_y, results) = (prev_runs', rect_start_y', results')"
    and "\<forall>r \<in> set runs. fst r < snd r" and "\<forall>r \<in> set prev_runs. fst r < snd r" and "0 < sx"
    and "\<forall>b \<in> set results. 0 < width b"
  shows "(\<forall>r \<in> set prev_runs'. fst r < snd r) \<and> (\<forall>b \<in> set results'. 0 < width b)"
proof (cases "runs_match runs prev_runs run_tolerance")
  case True
  with assms show ?thesis by (simp add: scan_row_def)
next
  case False
  with assms(1) have "prev_runs' = runs"
    "results' = close_rects pn sx sy y (prev_runs, rect_start_y, results)"
    by (auto simp: scan_row_def)
  with assms(2) close_rects_wide [OF assms(3,4,5)] show ?thesis by simp
qed

lemma scan_loop_wide:
  assumes "scan_loop smp w thr mrp pn sx sy ys (prev_runs, rect_start_y, results) = Inr (prev_runs', rect_start_y', results')"
    and "\<forall>r \<in> set prev_runs. fst r < snd r" and "0 < sx"
    and "\<forall>b \<in> set results. 0 < width b"
  shows "(\<forall>r \<in> set prev_runs'. fst r < snd r) \<and> (\<forall>b \<in> set results'. 0 < width b)"
  using assms
proof (induction ys arbitrary: prev_runs rect_start_y results)
  case Nil
  then show ?case by simp
next
  case (Cons y ys)
  from Cons.prems(1) obtain runs where row: "get_dark_runs smp y w thr mrp = Inr runs"
    and rest: "scan_loop smp w thr mrp pn sx sy ys
                 (scan_row pn sx sy y runs (prev_runs, rect_start_y, results))
               = Inr (prev_runs', rect_start_y', results')"
    by (auto split: sum.splits)
  obtain p1 s1 r1 where st1: "scan_row pn sx sy y runs (prev_runs, rect_start_y, results) = (p1, s1, r1)"
    by (cases "scan_row pn sx sy y runs (prev_runs, rect_start_y, results)")
  from scan_row_wide [OF st1 get_dark_runs_valid [OF row] Cons.prems(2,3,4)]
  have "\<forall>r \<in> set p1. fst r < snd r" "\<forall>b \<in> set r1. 0 < width b" by simp_all
  with Cons.IH [OF rest [unfolded st1]] Cons.prems(3) show ?case by simp
qed

lemma scan_page_wide:
  assumes "scan_page dpi thr mwp pn p results = Inr out"
    and "\<forall>b \<in> set results. 0 < width b"
  shows "\<forall>b \<in> set out. 0 < width b"
proof -
  from assms(1) obtain pix where pix: "get_pixmap p dpi = Inr pix"
    by (auto simp: scan_page_def split: sum.splits)
  from scan_page_Inr [OF pix assms(1)] obtain st where
    st: "scan_loop (samples pix) (pix_width pix) thr (min_run_px mwp p pix) pn
           (scale_x p pix) (scale_y p pix) [0..<pix_height pix] ([], 0, results) = Inr st"
    and out: "out = close_rects pn (scale_x p pix) (scale_y p pix) (pix_height pix) st"
    and nz: "scale_x p pix \<noteq> 0"
    by blast
  have "0 \<le> scale_x p pix" by (simp add: scale_x_def Rect_width_def)
  with nz have pos: "0 < scale_x p pix" by simp
  obtain a b c where abc: "st = (a, b, c)" by (cases st)
  have "(\<forall>r \<in> set a. fst r < snd r) \<and> (\<forall>b \<in> set c. 0 < width b)"
    by (rule scan_loop_wide [OF st [unfolded abc] _ pos assms(2)]) simp
  then show ?thesis
    unfolding out abc using close_rects_wide [of a "scale_x p pix" c] pos by blast
qed

lemma image_loop_wide:
  assumes "image_loop dpi thr mwp ps results = Inr out"
    and "\<forall>b \<in> set results. 0 < width b"
  shows "\<forall>b \<in> set out. 0 < width b"
  using assms
proof (induction ps arbitrary: results)
  case Nil
  then show ?case by simp
next
  case (Cons np ps)
  obtain n p where np: "np = (n, p)" by (cases np)
  from Cons.prems(1) np obtain results' where
    pg: "scan_page dpi thr mwp n p results = Inr results'"
    and rest: "image_loop dpi thr mwp ps results' = Inr out"
    by (auto split: sum.splits)
  from scan_page_wide [OF pg Cons.prems(2)] have "\<forall>b \<in> set results'. 0 < width b" .
  from Cons.IH [OF rest this] show ?case .
qed

lemma find_image_redactions_positive:
  assumes "find_image_redactions doc dpi thr mh mw = Inr out" and "0 < mh"
  shows "\<forall>b \<in> set out. 0 < width b \<and> 0 < height b"
proof -
  from assms(1) obtain results where
    loop: "image_loop dpi thr mw (enumerate doc) [] = Inr results"
    and out: "out = filter (\<lambda>r. height r \<ge> mh) results"
    by (auto simp: find_image_redactions_def split: sum.splits)
  have "\<forall>b \<in> set results. 0 < width b"
    by (rule image_loop_wide [OF loop]) simp
  with out assms(2) show ?thesis by auto
qed

lemma scan_page_cong:
  assumes "page_rect p = page_rect q" and "get_pixmap p = get_pixmap q"
  shows "scan_page dpi thr mwp n p results = scan_page dpi thr mwp n q results"
proof -
  have sx: "scale_x p = scale_x q" and sy: "scale_y p = scale_y q"
    by (simp_all add: fun_eq_iff scale_x_def scale_y_def assms(1))
  then have mr: "min_run_px mwp p = min_run_px mwp q"
    by (simp add: fun_eq_iff min_run_px_def)
  show ?thesis unfolding scan_page_def sx sy mr assms(2) ..
qed

lemma blank_scan_page: "scan_page 150 80 15 0 blank_page results = Inr results"
  by (simp add: scan_page_def blank_page_def scale_x_def scale_y_def min_run_px_def py_int_def
        Rect_width_def Rect_height_def get_dark_runs_def close_rects_def scan_row_def runs_match_def)

lemma degenerate_find_redactions:
  "find_redactions (Inr [degenerate_page]) = (Inr [\<lparr>page = 0, bbox = (10, 10, 10, 10)\<rparr>], Closed)"
proof -
  have a: "find_annotation_redactions [degenerate_page] = Inr [\<lparr>page = 0, bbox = (10, 10, 10, 10)\<rparr>]"
    by (simp add: find_annotation_redactions_def enumerate_single degenerate_page_def
          annot_boxes_def PDF_ANNOT_REDACT_def)
  have v: "find_vector_redactions [degenerate_page] = Inr []"
    by (simp add: find_vector_redactions_def enumerate_single degenerate_page_def blank_page_def
          drawing_boxes_def)
  have sp: "scan_page 150 80 15 0 degenerate_page [] = Inr []"
    using scan_page_cong [of degenerate_page blank_page] blank_scan_page [of "[]"]
    by (simp add: degenerate_page_def)
  have i: "find_image_redactions [degenerate_page] 150 80 5 15 = Inr []"
    by (simp add: find_image_redactions_def enumerate_single sp)
  show ?thesis by (simp add: find_redactions_unfold a v i)
qed

lemma fused_find_redactions:
  "find_redactions (Inr [fused_page]) =
     (Inr [\<lparr>page = 0, bbox = (0, 0, 30, 50)\<rparr>,
           \<lparr>page = 0, bbox = (5, 20, 25, 30)\<rparr>,
           \<lparr>page = 0, bbox = (5, 40, 25, 55)\<rparr>], Closed)"
proof -
  have a: "find_annotation_redactions [fused_page] = Inr [\<lparr>page = 0, bbox = (5, 40, 25, 55)\<rparr>]"
    by (simp add: find_annotation_redactions_def enumerate_single fused_page_def
          annot_boxes_def PDF_ANNOT_REDACT_def)
  have v: "find_vector_redactions [fused_page] = Inr [\<lparr>page = 0, bbox = (5, 20, 25, 30)\<rparr>]"
    by (simp add: find_vector_redactions_def enumerate_single fused_page_def
          drawing_boxes_def is_redaction_drawing_def Rect_width_def Rect_height_def)
  have sp: "scan_page 150 80 15 0 fused_page [] = Inr [\<lparr>page = 0, bbox = (0, 0, 30, 50)\<rparr>]"
    using scan_page_cong [of fused_page example_page] example_scan_page
    by (simp add: fused_page_def)
  have i: "find_image_redactions [fused_page] 150 80 5 15 = Inr [\<lparr>page = 0, bbox = (0, 0, 30, 50)\<rparr>]"
    by (simp add: find_image_redactions_def enumerate_single sp height_def)
  show ?thesis by (simp add: find_redactions_unfold a v i sort_key_of_def)
qed

lemma annotation_loop_superset:
  "annotation_loop ps results = Inr out \<Longrightarrow>
     set results \<subseteq> set out
     \<and> (\<forall>n p as. (n, p) \<in> set ps \<and> annots p = Inr as \<longrightarrow> set (annot_boxes n as) \<subseteq> set out)"
proof (induction ps results rule: annotation_loop.induct)
  case (1 results)
  then show ?case by simp
next
  case (2 page_num p ps results)
  from "2.prems"(1) obtain as where as: "annots p = Inr as"
    and rest: "annotation_loop ps (results @ annot_boxes page_num as) = Inr out"
    by (auto split: sum.splits)
  from "2.IH" [OF as rest] as show ?case by (auto; blast)
qed

lemma enumerate_nth: "n < length xs \<Longrightarrow> (n, xs ! n) \<in> set (enumerate xs)"
  unfolding enumerate_def by (simp add: in_set_zip) (metis add_0 nth_upt)

lemma find_redactions_keeps_annotations:
  assumes "find_redactions (Inr doc) = (Inr boxes, h)"
    and "n < length doc" and "annots (doc ! n) = Inr as" and "a \<in> set as"
    and "annot_type a = PDF_ANNOT_REDACT"
  shows "\<lparr>page = n, bbox = (x0 (annot_rect a), y0 (annot_rect a), x1 (annot_rect a), y1 (annot_rect a))\<rparr>
           \<in> set boxes"
proof -
  from assms(1) obtain r1 r2 r3 where
    r1: "find_annotation_redactions doc = Inr r1"
    and boxes: "boxes = sort_key sort_key_of (r1 @ r2 @ r3)"
    by (auto simp: find_redactions_unfold split: sum.splits)
  from annotation_loop_superset [OF r1 [unfolded find_annotation_redactions_def]]
    enumerate_nth [OF assms(2)] assms(3)
  have "set (annot_boxes n as) \<subseteq> set r1" by blast
  moreover from assms(4,5)
  have "\<lparr>page = n, bbox = (x0 (annot_rect a), y0 (annot_rect a), x1 (annot_rect a), y1 (annot_rect a))\<rparr>
          \<in> set (annot_boxes n as)"
    by (auto simp: annot_boxes_def)
  ultimately show ?thesis using boxes by auto
qed

lemma find_redactions_positive:
  assumes "find_redactions (Inr doc) = (Inr boxes, h)"
    and "\<forall>p \<in> set doc. \<forall>as. annots p = Inr as \<longrightarrow>
           (\<forall>a \<in> set as. annot_type a = PDF_ANNOT_REDACT \<longrightarrow>
              x0 (annot_rect a) < x1 (annot_rect a) \<and> y0 (annot_rect a) < y1 (annot_rect a))"
  shows "\<forall>b \<in> set boxes. 0 < width b \<and> 0 < height b"
proof
  fix b assume b: "b \<in> set boxes"
  from assms(1) obtain r1 r2 r3 where
    r1: "find_annotation_redactions doc = Inr r1"
    and r2: "find_vector_redactions doc = Inr r2"
    and r3: "find_image_redactions doc 150 80 5 15 = Inr r3"
    and boxes: "boxes = sort_key sort_key_of (r1 @ r2 @ r3)"
    by (auto simp: find_redactions_unfold split: sum.splits)
  from b boxes consider "b \<in> set r1" | "b \<in> set r2" | "b \<in> set r3" by auto
  then show "0 < width b \<and> 0 < height b"
  proof cases
    case 1
    from annotation_loop_set [OF r1 [unfolded find_annotation_redactions_def] 1]
    obtain n p as where "(n, p) \<in> set (enumerate doc)" "annots p = Inr as" "b \<in> set (annot_boxes n as)"
      by auto
    then have inbox: "b \<in> set (annot_boxes n as)" and as: "annots p = Inr as" and "p \<in> set doc"
      by (simp_all add: enumerate_snd)
    with assms(2) have "\<forall>a \<in> set as. annot_type a = PDF_ANNOT_REDACT \<longrightarrow>
              x0 (annot_rect a) < x1 (annot_rect a) \<and> y0 (annot_rect a) < y1 (annot_rect a)"
      by blast
    with inbox show ?thesis by (rule annot_boxes_positive)
  next
    case 2
    from vector_loop_set [OF r2 [unfolded find_vector_redactions_def] 2]
    obtain n ds where "b \<in> set (drawing_boxes n ds)" by auto
    from drawing_boxes_size [OF this] show ?thesis by simp
  next
    case 3
    from find_image_redactions_positive [OF r3] 3 show ?thesis by simp
  qed
qed


text \<open>
  The vector and the raster detector test the size of what they report, so every box
  from them has a positive width and height (the lemmas above). The annotation detector
  has no such test: it reports the rectangle of every redaction annotation as it is.
\<close>

text \<open>
  Claim C2 says that every box returned by \<open>find_redactions\<close> has a positive width and
  height, annotation boxes included. On a page with a redaction annotation whose rectangle
  is the single point \<open>(10, 10)\<close> the code returns that rectangle as a box of width 0 and
  height 0.
\<close>

theorem degenerate_annotation_box:
  "find_redactions (Inr [degenerate_page]) = (Inr [\<lparr>page = 0, bbox = (10, 10, 10, 10)\<rparr>], Closed)
   \<and> width \<lparr>page = 0, bbox = (10, 10, 10, 10)\<rparr> = 0
   \<and> height \<lparr>page = 0, bbox = (10, 10, 10, 10)\<rparr> = 0"
  by (simp add: degenerate_find_redactions width_def height_def)

text \<open>
  Claim C5. The list that \<open>find_redactions\<close> returns is sorted by the key
  (page, top edge \<open>y0\<close>, left edge \<open>x0\<close>): each box and its successor are in
  lexicographic order of that key.
\<close>

theorem find_redactions_sorted:
  assumes "find_redactions opened = (Inr boxes, h)"
  shows "sorted (map sort_key_of boxes)
       \<and> (\<forall>i. 0 < i \<and> i < length boxes \<longrightarrow>
            (page (boxes ! (i - 1)) < page (boxes ! i)
             \<or> (page (boxes ! (i - 1)) = page (boxes ! i)
                \<and> (fst (snd (bbox (boxes ! (i - 1)))) < fst (snd (bbox (boxes ! i)))
                    \<or> (fst (snd (bbox (boxes ! (i - 1)))) = fst (snd (bbox (boxes ! i)))
                       \<and> fst (bbox (boxes ! (i - 1))) \<le> fst (bbox (boxes ! i)))))))"
proof -
  from assms obtain xs where boxes: "boxes = sort_key sort_key_of xs"
    by (auto simp: find_redactions_unfold split: sum.splits)
  then have srt: "sorted (map sort_key_of boxes)" by simp
  have "page a < page b
         \<or> (page a = page b
            \<and> (fst (snd (bbox a)) < fst (snd (bbox b))
                \<or> (fst (snd (bbox a)) = fst (snd (bbox b)) \<and> fst (bbox a) \<le> fst (bbox b))))"
    if "sort_key_of a \<le> sort_key_of b" for a b
    using that by (cases "bbox a"; cases "bbox b") (auto simp: sort_key_of_def less_eq_prod_def)
  moreover have "sort_key_of (boxes ! (i - 1)) \<le> sort_key_of (boxes ! i)"
    if "0 < i \<and> i < length boxes" for i
  proof -
    from that have lt: "i - 1 < length boxes" "i < length boxes" by arith+
    from sorted_nth_mono [OF srt, of "i - 1" i] that
    have "map sort_key_of boxes ! (i - 1) \<le> map sort_key_of boxes ! i" by simp
    then show ?thesis by (simp only: nth_map [OF lt(1)] nth_map [OF lt(2)])
  qed
  ultimately show ?thesis using srt by blast
qed

text \<open>
  On the fused example page the detectors find the annotation box first and the raster box
  last; the returned list has them by top edge.
\<close>

theorem find_redactions_sorted_witness:
  "find_redactions (Inr [fused_page]) =
     (Inr [\<lparr>page = 0, bbox = (0, 0, 30, 50)\<rparr>,
           \<lparr>page = 0, bbox = (5, 20, 25, 30)\<rparr>,
           \<lparr>page = 0, bbox = (5, 40, 25, 55)\<rparr>], Closed)
   \<and> find_annotation_redactions [fused_page] = Inr [\<lparr>page = 0, bbox = (5, 40, 25, 55)\<rparr>]
   \<and> sorted (map sort_key_of [\<lparr>page = 0, bbox = (0, 0, 30, 50)\<rparr>,
           \<lparr>page = 0, bbox = (5, 20, 25, 30)\<rparr>,
           \<lparr>page = 0, bbox = (5, 40, 25, 55)\<rparr>])"
proof -
  have a: "find_annotation_redactions [fused_page] = Inr [\<lparr>page = 0, bbox = (5, 40, 25, 55)\<rparr>]"
    by (simp add: find_annotation_redactions_def enumerate_single fused_page_def
          annot_boxes_def PDF_ANNOT_REDACT_def)
  from find_redactions_sorted [OF fused_find_redactions] a fused_find_redactions
  show ?thesis by blast
qed

lemma failing_find_redactions: "find_redactions (Inr [failing_page]) = (Inl FitzError, Open)"
proof -
  have a: "find_annotation_redactions [failing_page] = Inr []"
    by (simp add: find_annotation_redactions_def enumerate_single failing_page_def blank_page_def
          annot_boxes_def)
  have v: "find_vector_redactions [failing_page] = Inr []"
    by (simp add: find_vector_redactions_def enumerate_single failing_page_def blank_page_def
          drawing_boxes_def)
  have i: "find_image_redactions [failing_page] 150 80 5 15 = Inl FitzError"
    by (simp add: find_image_redactions_def enumerate_single scan_page_def failing_page_def)
  show ?thesis by (simp add: find_redactions_unfold a v i)
qed

lemma failing_extract_font_info: "extract_font_info (Inr [failing_page]) = (Inl FitzError, Open)"
  by (simp add: extract_font_info_unfold enumerate_single failing_page_def)

text \<open>
  Claim C7, as amended. On a document that was opened, \<open>find_redactions\<close> and
  \<open>extract_font_info\<close> leave the handle closed exactly when they return a result; when
  detection or extraction raises, the exception reaches the caller with the handle still
  open, since \<^verbatim>\<open>doc.close()\<close> is the last statement before the return and nothing
  guards it. When \<^verbatim>\<open>fitz.open\<close> itself raises there is no handle.
\<close>

theorem handle_closed_on_success_only:
  "snd (find_redactions (Inr doc)) =
     (case fst (find_redactions (Inr doc)) of Inr boxes \<Rightarrow> Closed | Inl e \<Rightarrow> Open)
   \<and> snd (extract_font_info (Inr doc)) =
     (case fst (extract_font_info (Inr doc)) of Inr spans \<Rightarrow> Closed | Inl e \<Rightarrow> Open)
   \<and> find_redactions (Inl e) = (Inl e, NotAcquired)
   \<and> extract_font_info (Inl e) = (Inl e, NotAcquired)"
  by (simp add: find_redactions_unfold extract_font_info_unfold split: sum.splits)

text \<open>The fused example page is processed and closed; the failing page leaves the handle open.\<close>

theorem handle_closed_on_success_only_witness:
  "snd (find_redactions (Inr [fused_page])) = Closed
   \<and> snd (find_redactions (Inr [failing_page])) = Open
   \<and> snd (extract_font_info (Inr [fused_page])) = Closed
   \<and> snd (extract_font_info (Inr [failing_page])) = Open"
proof -
  have e: "extract_font_info (Inr [fused_page]) = (Inr [], Closed)"
    by (simp add: extract_font_info_unfold enumerate_single fused_page_def example_page_def)
  from handle_closed_on_success_only [of "[fused_page]"] handle_closed_on_success_only [of "[failing_page]"]
  show ?thesis
    by (simp add: fused_find_redactions failing_find_redactions failing_extract_font_info e)
qed

text \<open>
  As the claim is stated it fails: on a page that the engine cannot render or read, both
  calls raise and the handle is open.
\<close>

theorem handle_open_after_failure_counterexample:
  "find_redactions (Inr [failing_page]) = (Inl FitzError, Open)
   \<and> extract_font_info (Inr [failing_page]) = (Inl FitzError, Open)"
  using failing_find_redactions failing_extract_font_info by simp

section \<open>Properties of the span extractor\<close>

lemma line_spans_text:
  "map span_text (line_spans n runs) = filter (\<lambda>t. strip t \<noteq> []) (map raw_text runs)"
  by (simp add: line_spans_def make_span_def filter_map comp_def)

lemma block_spans_text:
  "map span_text (block_spans n b) =
     filter (\<lambda>t. strip t \<noteq> [])
       (map raw_text (if block_type b = 0 then concat (block_lines b) else []))"
  by (simp add: block_spans_def map_concat filter_concat comp_def line_spans_text)

lemma page_spans_text:
  "map span_text (concat (map (block_spans n) blocks)) =
     filter (\<lambda>t. strip t \<noteq> [])
       (map raw_text (concat (map (\<lambda>b. if block_type b = 0 then concat (block_lines b) else []) blocks)))"
  by (induction blocks) (simp_all add: block_spans_text)

lemma extract_loop_text:
  "extract_loop ps spans = Inr out \<Longrightarrow>
     map span_text out =
       map span_text spans @
       filter (\<lambda>t. strip t \<noteq> [])
         (concat (map (\<lambda>p. case get_text p of
                               Inl e \<Rightarrow> []
                             | Inr blocks \<Rightarrow>
                                 map raw_text
                                   (concat (map (\<lambda>b. if block_type b = 0 then concat (block_lines b) else [])
                                              blocks)))
                    (map snd ps)))"
proof (induction ps spans rule: extract_loop.induct)
  case (1 spans)
  then show ?case by simp
next
  case (2 page_num p ps spans)
  from "2.prems" obtain blocks where blocks: "get_text p = Inr blocks"
    and rest: "extract_loop ps (spans @ concat (map (block_spans page_num) blocks)) = Inr out"
    by (auto split: sum.splits)
  from "2.IH" [OF blocks rest] blocks show ?case
    by (simp add: page_spans_text)
qed

text \<open>
  Claim C10. The texts of the spans that \<open>extract_font_info\<close> returns are the texts of the
  runs of the text blocks, in document order and unchanged, with the runs left out whose
  text is empty after trimming. So every stored text is a run's text verbatim (leading
  and trailing whitespace kept) and is non-empty after trimming.
\<close>

theorem span_text_verbatim:
  assumes "extract_font_info (Inr doc) = (Inr spans, h)"
  shows "map span_text spans =
           filter (\<lambda>t. strip t \<noteq> [])
             (concat (map (\<lambda>p. case get_text p of
                                   Inl e \<Rightarrow> []
                                 | Inr blocks \<Rightarrow>
                                     map raw_text
                                       (concat (map (\<lambda>b. if block_type b = 0 then concat (block_lines b)
                                                           else [])
                                                  blocks)))
                        doc))
       \<and> (\<forall>s \<in> set spans. strip (span_text s) \<noteq> [])"
proof -
  from assms have loop: "extract_loop (enumerate doc) [] = Inr spans"
    by (auto simp: extract_font_info_unfold split: sum.splits)
  from extract_loop_text [OF loop]
  have eq: "map span_text spans =
           filter (\<lambda>t. strip t \<noteq> [])
             (concat (map (\<lambda>p. case get_text p of
                                   Inl e \<Rightarrow> []
                                 | Inr blocks \<Rightarrow>
                                     map raw_text
                                       (concat (map (\<lambda>b. if block_type b = 0 then concat (block_lines b)
                                                           else [])
                                                  blocks)))
                        doc))"
    by (simp add: map_snd_enumerate)
  have "\<forall>t \<in> set (map span_text spans). strip t \<noteq> []"
    unfolding eq by simp
  then have "\<forall>s \<in> set spans. strip (span_text s) \<noteq> []" by simp
  with eq show ?thesis by blast
qed

lemma strip_examples: "strip ''  Hi '' = ''Hi''" "strip ''   '' = []"
  by (simp_all add: strip_def isspace_def)

lemma match_font_ArialMT: "match_font ''ArialMT'' = Some Arial"
  by code_simp

lemma flags_20: "((20::int) AND 16 \<noteq> 0) = True" "((20::int) AND 2 \<noteq> 0) = False"
  "((20::int) AND 8 \<noteq> 0) = False" "((20::int) AND 4 \<noteq> 0) = True"
  by simp_all

lemma text_page_extract:
  "extract_font_info (Inr [text_page]) =
     (Inr [\<lparr>span_text = ''  Hi '',
            span_font = \<lparr>font_name = ''ArialMT'', font_size = 12, bold = True, italic = False,
                         monospaced = False, serif = True, color = 0, matched_font = Some Arial\<rparr>,
            span_page = 0, span_bbox = (10, 10, 40, 22)\<rparr>], Closed)"
  by (simp add: extract_font_info_unfold enumerate_def text_page_def block_spans_def line_spans_def
        strip_examples make_span_def match_font_ArialMT py_round_def flags_20)

text \<open>
  The run \<open>''  Hi ''\<close> is stored with its spaces; the run of three spaces is skipped.
\<close>

theorem span_text_verbatim_witness:
  "extract_font_info (Inr [text_page]) =
     (Inr [\<lparr>span_text = ''  Hi '',
            span_font = \<lparr>font_name = ''ArialMT'', font_size = 12, bold = True, italic = False,
                         monospaced = False, serif = True, color = 0, matched_font = Some Arial\<rparr>,
            span_page = 0, span_bbox = (10, 10, 40, 22)\<rparr>], Closed)
   \<and> strip ''  Hi '' = ''Hi''
   \<and> strip ''   '' = []
   \<and> strip ''  Hi '' \<noteq> []"
  using span_text_verbatim [OF text_page_extract] text_page_extract strip_examples by simp

section \<open>Properties of the font cache\<close>

lemma search_bases_None:
  "search_bases fs filename bases = None \<longleftrightarrow>
     (\<forall>base \<in> set bases. \<not> path_exists fs (base @ [filename]) \<and> rglob fs base filename = [])"
  by (induction bases) (auto split: list.splits)

lemma search_filenames_None:
  "search_filenames fs filenames = None \<longleftrightarrow>
     (\<forall>filename \<in> set filenames. \<forall>base \<in> set (search_paths fs).
        \<not> path_exists fs (base @ [filename]) \<and> rglob fs base filename = [])"
  by (induction filenames) (auto simp: search_bases_None [symmetric] split: option.splits)

lemma load_loop_missing:
  assumes "font \<in> set to_load" and "search_filenames fs (FONT_FILES font) = None"
  shows "\<exists>found g rest. to_load = found @ g # rest
           \<and> (\<forall>f \<in> set found. search_filenames fs (FONT_FILES f) \<noteq> None)
           \<and> search_filenames fs (FONT_FILES g) = None
           \<and> load_loop fs load_face face_upem to_load self =
               Inl (FileNotFoundError (''Font file not found: '' @ py_repr_list (FONT_FILES g)))"
  using assms
proof (induction to_load arbitrary: self)
  case Nil
  then show ?case by simp
next
  case (Cons f to_load)
  show ?case
  proof (cases "search_filenames fs (FONT_FILES f)")
    case None
    then have "f # to_load = [] @ f # to_load
        \<and> (\<forall>f' \<in> set []. search_filenames fs (FONT_FILES f') \<noteq> None)
        \<and> search_filenames fs (FONT_FILES f) = None
        \<and> load_loop fs load_face face_upem (f # to_load) self =
               Inl (FileNotFoundError (''Font file not found: '' @ py_repr_list (FONT_FILES f)))"
      by (simp add: get_font_path_def)
    then show ?thesis by blast
  next
    case (Some p)
    with Cons.prems have "font \<in> set to_load" by auto
    from Cons.IH [OF this Cons.prems(2)] obtain found g rest where
      split: "to_load = found @ g # rest"
      and found: "\<forall>f \<in> set found. search_filenames fs (FONT_FILES f) \<noteq> None"
      and missing: "search_filenames fs (FONT_FILES g) = None"
      and err: "load_loop fs load_face face_upem to_load
                  (self\<lparr>faces := (faces self)(f \<mapsto> load_face p),
                        upem := (upem self)(f \<mapsto> face_upem (load_face p))\<rparr>) =
                Inl (FileNotFoundError (''Font file not found: '' @ py_repr_list (FONT_FILES g)))"
      by blast
    from split found Some missing err
    have "f # to_load = (f # found) @ g # rest
        \<and> (\<forall>f' \<in> set (f # found). search_filenames fs (FONT_FILES f') \<noteq> None)
        \<and> search_filenames fs (FONT_FILES g) = None
        \<and> load_loop fs load_face face_upem (f # to_load) self =
               Inl (FileNotFoundError (''Font file not found: '' @ py_repr_list (FONT_FILES g)))"
      by (simp add: get_font_path_def)
    then show ?thesis by blast
  qed
qed


lemma message_holds_filenames:
  "\<forall>filename \<in> set (FONT_FILES g).
     sublist filename (''Font file not found: '' @ py_repr_list (FONT_FILES g))"
  unfolding str_contains_sublist [symmetric]
  by (cases g) (simp_all add: py_repr_list_def py_repr_str_def)

lemma message_holds_family:
  "sublist (FontT_str g) (lower (''Font file not found: '' @ py_repr_list (FONT_FILES g)))"
proof (cases g)
  case Arial
  show ?thesis unfolding Arial by code_simp
next
  case Calibri
  show ?thesis unfolding Calibri by code_simp
next
  case Cambria
  show ?thesis unfolding Cambria by code_simp
next
  case Courier_New
  show ?thesis unfolding Courier_New by code_simp
next
  case Helvetica
  show ?thesis unfolding Helvetica by code_simp
next
  case Times_New_Roman
  show ?thesis unfolding Times_New_Roman by code_simp
qed

lemma message_determines_family:
  "''Font file not found: '' @ py_repr_list (FONT_FILES g') =
   ''Font file not found: '' @ py_repr_list (FONT_FILES g) \<Longrightarrow> g' = g"
  by (cases g; cases g'; simp add: py_repr_list_def py_repr_str_def)

text \<open>
  Claim C3. If some requested family has no candidate file in any searched directory
  (neither directly in it nor below it), \<open>FontCache_init\<close> returns no cache: it raises
  \<open>FileNotFoundError\<close> for the first such family in the order of the request, all
  families before it having been found, and nothing is tried again. The message is
  \<open>Font file not found:\<close> followed by the list of the file names tried. It holds every file
  name tried, and it identifies the family: the family's name occurs in it (the first
  candidate file is named after the family, with capital letters), and no other family has
  the same message.
\<close>

theorem font_cache_missing_font:
  assumes "font \<in> set (case fonts of Some requested \<Rightarrow> requested | None \<Rightarrow> FONT_FILES_keys)"
    and "\<forall>filename \<in> set (FONT_FILES font). \<forall>base \<in> set (search_paths fs).
           \<not> path_exists fs (base @ [filename]) \<and> rglob fs base filename = []"
  shows "\<exists>found g rest message.
           (case fonts of Some requested \<Rightarrow> requested | None \<Rightarrow> FONT_FILES_keys) = found @ g # rest
           \<and> (\<forall>f \<in> set found. \<exists>p. get_font_path fs f = Inr p)
           \<and> (\<forall>filename \<in> set (FONT_FILES g). \<forall>base \<in> set (search_paths fs).
                \<not> path_exists fs (base @ [filename]) \<and> rglob fs base filename = [])
           \<and> FontCache_init fs load_face face_upem fonts = Inl (FileNotFoundError message)
           \<and> message = ''Font file not found: '' @ py_repr_list (FONT_FILES g)
           \<and> (\<forall>filename \<in> set (FONT_FILES g). sublist filename message)
           \<and> sublist (FontT_str g) (lower message)
           \<and> (\<forall>g'. ''Font file not found: '' @ py_repr_list (FONT_FILES g') = message \<longrightarrow> g' = g)"
proof -
  from assms(2) have "search_filenames fs (FONT_FILES font) = None"
    by (simp add: search_filenames_None)
  from load_loop_missing [OF assms(1) this]
  obtain found g rest where
    split: "(case fonts of Some requested \<Rightarrow> requested | None \<Rightarrow> FONT_FILES_keys) = found @ g # rest"
    and found: "\<forall>f \<in> set found. search_filenames fs (FONT_FILES f) \<noteq> None"
    and missing: "search_filenames fs (FONT_FILES g) = None"
    and err: "load_loop fs load_face face_upem
                (case fonts of Some requested \<Rightarrow> requested | None \<Rightarrow> FONT_FILES_keys)
                \<lparr>faces = Map.empty, upem = Map.empty\<rparr> =
              Inl (FileNotFoundError (''Font file not found: '' @ py_repr_list (FONT_FILES g)))"
    by blast
  define message where "message = ''Font file not found: '' @ py_repr_list (FONT_FILES g)"
  from found have found': "\<forall>f \<in> set found. \<exists>p. get_font_path fs f = Inr p"
    by (auto simp: get_font_path_def)
  from missing have missing': "\<forall>filename \<in> set (FONT_FILES g). \<forall>base \<in> set (search_paths fs).
                \<not> path_exists fs (base @ [filename]) \<and> rglob fs base filename = []"
    by (simp add: search_filenames_None)
  from err have err': "FontCache_init fs load_face face_upem fonts = Inl (FileNotFoundError message)"
    by (simp add: FontCache_init_def message_def)
  have msg: "message = ''Font file not found: '' @ py_repr_list (FONT_FILES g)"
    by (simp add: message_def)
  have files: "\<forall>filename \<in> set (FONT_FILES g). sublist filename message"
    unfolding message_def by (rule message_holds_filenames)
  have family: "sublist (FontT_str g) (lower message)"
    unfolding message_def by (rule message_holds_family)
  have only: "\<forall>g'. ''Font file not found: '' @ py_repr_list (FONT_FILES g') = message \<longrightarrow> g' = g"
    unfolding message_def using message_determines_family by blast
  show ?thesis
    by (intro exI conjI)
      (fact split, fact found', fact missing', fact err', fact msg, fact files, fact family, fact only)
qed

lemma arial_fs_paths: "get_font_path arial_fs Arial = Inr [''/'', ''usr'', ''share'', ''fonts'', ''Arial.ttf'']"
  by (simp add: get_font_path_def search_paths_def arial_fs_def empty_fs_def)

text \<open>
  With only \<^verbatim>\<open>Arial.ttf\<close> installed, a request for Arial and Calibri finds Arial and
  then fails with the message for Calibri.
\<close>

theorem font_cache_missing_font_witness:
  "get_font_path arial_fs Arial = Inr [''/'', ''usr'', ''share'', ''fonts'', ''Arial.ttf'']
   \<and> FontCache_init arial_fs (\<lambda>p. ()) (\<lambda>f. 2048) (Some [Arial, Calibri]) =
       Inl (FileNotFoundError
              (''Font file not found: ['' @ CHR 0x27 # ''Calibri.ttf'' @ CHR 0x27 # '', '' @
               CHR 0x27 # ''Carlito-Regular.ttf'' @ CHR 0x27 # '']''))
   \<and> FontT_str Calibri = ''calibri''
   \<and> sublist ''calibri''
        (lower (''Font file not found: ['' @ CHR 0x27 # ''Calibri.ttf'' @ CHR 0x27 # '', '' @
               CHR 0x27 # ''Carlito-Regular.ttf'' @ CHR 0x27 # '']''))
   \<and> sublist ''Calibri.ttf''
        (''Font file not found: ['' @ CHR 0x27 # ''Calibri.ttf'' @ CHR 0x27 # '', '' @
               CHR 0x27 # ''Carlito-Regular.ttf'' @ CHR 0x27 # '']'')
   \<and> sublist ''Carlito-Regular.ttf''
        (''Font file not found: ['' @ CHR 0x27 # ''Calibri.ttf'' @ CHR 0x27 # '', '' @
               CHR 0x27 # ''Carlito-Regular.ttf'' @ CHR 0x27 # '']'')"
proof -
  have mem: "Calibri \<in> set (case Some [Arial, Calibri] of Some requested \<Rightarrow> requested | None \<Rightarrow> FONT_FILES_keys)"
    by simp
  have missing: "\<forall>filename \<in> set (FONT_FILES Calibri). \<forall>base \<in> set (search_paths arial_fs).
           \<not> path_exists arial_fs (base @ [filename]) \<and> rglob arial_fs base filename = []"
    by (simp add: search_paths_def arial_fs_def empty_fs_def)
  have found: "\<not> (\<forall>filename \<in> set (FONT_FILES Arial). \<forall>base \<in> set (search_paths arial_fs).
           \<not> path_exists arial_fs (base @ [filename]) \<and> rglob arial_fs base filename = [])"
    by (simp add: search_paths_def arial_fs_def empty_fs_def)
  from font_cache_missing_font [OF mem missing, of "\<lambda>p. ()" "\<lambda>f. 2048"]
  obtain found g rest message where
    split: "[Arial, Calibri] = found @ g # rest"
    and gm: "\<forall>filename \<in> set (FONT_FILES g). \<forall>base \<in> set (search_paths arial_fs).
                \<not> path_exists arial_fs (base @ [filename]) \<and> rglob arial_fs base filename = []"
    and err: "FontCache_init arial_fs (\<lambda>p. ()) (\<lambda>f. 2048) (Some [Arial, Calibri]) =
               Inl (FileNotFoundError message)"
    and msg: "message = ''Font file not found: '' @ py_repr_list (FONT_FILES g)"
    and files: "\<forall>filename \<in> set (FONT_FILES g). sublist filename message"
    and family: "sublist (FontT_str g) (lower message)"
    by auto
  from split have "g = Arial \<or> g = Calibri"
    by (metis in_set_conv_decomp set_ConsD empty_iff empty_set)
  with gm found have g: "g = Calibri" by blast
  have literal: "message = ''Font file not found: ['' @ CHR 0x27 # ''Calibri.ttf'' @ CHR 0x27 # '', '' @
               CHR 0x27 # ''Carlito-Regular.ttf'' @ CHR 0x27 # '']''"
    unfolding msg g by (simp add: py_repr_list_def py_repr_str_def)
  from files g have f1: "sublist ''Calibri.ttf'' message" and f2: "sublist ''Carlito-Regular.ttf'' message"
    by simp_all
  from family g have fam: "sublist ''calibri'' (lower message)" by simp
  from arial_fs_paths err f1 f2 fam show ?thesis unfolding literal by simp
qed

section \<open>Properties of the width computation\<close>

lemma py_round_mono: "x \<le> y \<Longrightarrow> py_round x \<le> py_round y"
proof -
  assume xy: "x \<le> y"
  have fl: "\<lfloor>x\<rfloor> \<le> \<lfloor>y\<rfloor>" using xy by (rule floor_mono)
  have lo: "\<lfloor>y\<rfloor> \<le> py_round y" by (simp add: py_round_def)
  have hi: "py_round x \<le> \<lfloor>x\<rfloor> + 1" by (simp add: py_round_def)
  show ?thesis
  proof (cases "\<lfloor>x\<rfloor> = \<lfloor>y\<rfloor>")
    case True
    then show ?thesis using xy by (auto simp: py_round_def)
  next
    case False
    with fl have "\<lfloor>x\<rfloor> + 1 \<le> \<lfloor>y\<rfloor>" by simp
    with lo hi show ?thesis by linarith
  qed
qed

lemma calculate_width_shaped:
  assumes "faces cache font = Some face" and "upem cache font = Some u" and "u \<noteq> 0"
    and "shape face (u, u) (features_of kerning ligatures) string = Some positions"
  shows "calculate_width shape string font sz cache kerning ligatures =
           Inr (py_round (real_of_int (sum_list positions * sz) / real_of_int u))"
  using assms by (simp add: calculate_width_def)

lemma calculate_width_unshaped:
  assumes "faces cache font = Some face" and "upem cache font = Some u"
    and "shape face (u, u) (features_of kerning ligatures) string = None"
  shows "calculate_width shape string font sz cache kerning ligatures = Inl TypeError"
  using assms by (simp add: calculate_width_def)

lemma scaled_mono:
  assumes "(a::int) * s \<le> b * t" and "0 < u"
  shows "py_round (real_of_int (a * s) / real_of_int u) \<le> py_round (real_of_int (b * t) / real_of_int u)"
proof (rule py_round_mono)
  from assms(1) have "real_of_int (a * s) \<le> real_of_int (b * t)" by (simp only: of_int_le_iff)
  with assms(2) show "real_of_int (a * s) / real_of_int u \<le> real_of_int (b * t) / real_of_int u"
    by (simp add: divide_right_mono)
qed

lemma narrow_loaded: "faces narrow_cache Arial = Some ()" "upem narrow_cache Arial = Some 2048"
  by (simp_all add: narrow_cache_def)

lemma narrow_width:
  "string \<noteq> [] \<Longrightarrow>
   calculate_width narrow_shape string Arial sz narrow_cache kerning ligatures =
     Inr (py_round (real_of_int (455 * int (length string) * sz) / 2048))"
  by (simp add: calculate_width_def narrow_loaded narrow_shape_def sum_list_triv mult_ac)

lemma narrow_empty:
  "calculate_width narrow_shape [] Arial sz narrow_cache kerning ligatures = Inl TypeError"
  by (simp add: calculate_width_def narrow_loaded narrow_shape_def)

lemma ligature_loaded: "faces ligature_cache Arial = Some ()" "upem ligature_cache Arial = Some 1000"
  by (simp_all add: ligature_cache_def)

text \<open>
  Claim C6, as amended. For a non-empty string, a family that the cache holds with a
  positive units-per-em value, and glyph positions from the shaper whose advances have a
  total that is not negative, \<open>calculate_width\<close> returns a width at every size, and a
  larger size never gives a smaller width. The width is the scaled advance rounded to an
  integer, so it need not grow when the size grows.
\<close>

theorem calculate_width_monotone_in_size:
  assumes "string \<noteq> []"
    and "faces cache font = Some face" and "upem cache font = Some u" and "0 < u"
    and "shape face (u, u) (features_of kerning ligatures) string = Some positions"
    and "0 \<le> sum_list positions"
    and "size1 < size2"
  shows "\<exists>w1 w2. calculate_width shape string font size1 cache kerning ligatures = Inr w1
               \<and> calculate_width shape string font size2 cache kerning ligatures = Inr w2
               \<and> w1 \<le> w2"
proof -
  from assms(4) have nz: "u \<noteq> 0" by simp
  from assms(6,7) have "sum_list positions * size1 \<le> sum_list positions * size2"
    by (simp add: mult_left_mono)
  from scaled_mono [OF this assms(4)] show ?thesis
    using assms(2,3,5) nz by (simp add: calculate_width_def)
qed

text \<open>One glyph of advance 455 at 2048 units per em: width 0 at size 2, width 3 at size 12.\<close>

theorem calculate_width_monotone_in_size_witness:
  "''i'' \<noteq> []
   \<and> narrow_shape () (2048, 2048) (features_of True True) ''i'' = Some [455]
   \<and> calculate_width narrow_shape ''i'' Arial 2 narrow_cache True True = Inr 0
   \<and> calculate_width narrow_shape ''i'' Arial 12 narrow_cache True True = Inr 3
   \<and> (0::int) \<le> 3"
proof -
  have ne: "''i'' \<noteq> []" by simp
  have shaped: "narrow_shape () (2048, 2048) (features_of True True) ''i'' = Some [455]"
    by (simp add: narrow_shape_def)
  have adv: "(0::int) \<le> sum_list [455]" by simp
  have lt: "(2::int) < 12" by simp
  have pos: "(0::int) < 2048" by simp
  from calculate_width_monotone_in_size
         [where shape = narrow_shape, OF ne narrow_loaded pos shaped adv lt] shaped
  show ?thesis by (simp add: narrow_width py_round_def)
qed

text \<open>
  As the claim is stated it fails: the same non-empty string has width 0 at size 1 and at
  size 2, since \<open>455 / 2048\<close> and \<open>910 / 2048\<close> both round to 0.
\<close>

theorem width_not_strictly_increasing_counterexample:
  "''i'' \<noteq> [] \<and> (1::int) < 2
   \<and> calculate_width narrow_shape ''i'' Arial 1 narrow_cache True True = Inr 0
   \<and> calculate_width narrow_shape ''i'' Arial 2 narrow_cache True True = Inr 0"
  by (simp add: narrow_width py_round_def)

text \<open>
  Claim C8, as amended. For a family that the cache holds with a positive units-per-em
  value, a size that is not negative and fixed feature flags, appending a character to a
  string of a repeated character does not lower the width, provided the shaper returns
  glyph positions for both strings and those of the longer string are those of the shorter
  string followed by glyphs of non-negative advance.
\<close>

theorem append_keeps_width:
  assumes "faces cache font = Some face" and "upem cache font = Some u" and "0 < u"
    and "0 \<le> sz"
    and "shape face (u, u) (features_of kerning ligatures) (replicate n c) = Some glyphs"
    and "shape face (u, u) (features_of kerning ligatures) (replicate n c @ [c']) = Some (glyphs @ extra)"
    and "\<forall>a \<in> set extra. 0 \<le> a"
  shows "\<exists>w w'. calculate_width shape (replicate n c) font sz cache kerning ligatures = Inr w
              \<and> calculate_width shape (replicate n c @ [c']) font sz cache kerning ligatures = Inr w'
              \<and> w \<le> w'"
proof -
  from assms(3) have nz: "u \<noteq> 0" by simp
  from assms(7) have "0 \<le> sum_list extra" by (simp add: sum_list_nonneg)
  then have "sum_list glyphs \<le> sum_list (glyphs @ extra)" by simp
  with assms(4) have "sum_list glyphs * sz \<le> sum_list (glyphs @ extra) * sz"
    by (simp only: mult_right_mono)
  from scaled_mono [OF this assms(3)] show ?thesis
    using assms(1,2,5,6) nz by (simp add: calculate_width_def)
qed

text \<open>
  With a glyph of advance 455 per character at 2048 units per em and size 12: three
  characters have width 8, four characters width 11.
\<close>

theorem append_keeps_width_witness:
  "narrow_shape () (2048, 2048) (features_of True True) (replicate 3 CHR ''i'') = Some [455, 455, 455]
   \<and> narrow_shape () (2048, 2048) (features_of True True) (replicate 3 CHR ''i'' @ [CHR ''i''])
       = Some ([455, 455, 455] @ [455])
   \<and> calculate_width narrow_shape (replicate 3 CHR ''i'') Arial 12 narrow_cache True True = Inr 8
   \<and> calculate_width narrow_shape (replicate 3 CHR ''i'' @ [CHR ''i'']) Arial 12 narrow_cache True True = Inr 11
   \<and> (8::int) \<le> 11"
proof -
  have pos: "(0::int) < 2048" by simp
  have sz: "(0::int) \<le> 12" by simp
  have short: "narrow_shape () (2048, 2048) (features_of True True) (replicate 3 CHR ''i'')
                 = Some [455, 455, 455]"
    by (simp add: narrow_shape_def numeral_3_eq_3)
  have long: "narrow_shape () (2048, 2048) (features_of True True) (replicate 3 CHR ''i'' @ [CHR ''i''])
                = Some ([455, 455, 455] @ [455])"
    by (simp add: narrow_shape_def numeral_3_eq_3)
  have nonneg: "\<forall>a \<in> set [455::int]. 0 \<le> a" by simp
  from append_keeps_width [where shape = narrow_shape, OF narrow_loaded pos sz short long nonneg]
    short long
  show ?thesis by (simp add: narrow_width py_round_def)
qed

text \<open>
  As the claim is stated it fails three times. The width of the empty string is not 0:
  with no glyph positions for the empty buffer the call raises \<open>TypeError\<close>. With glyph
  advances that are all positive, a ligature makes the width of two letters f (15) smaller
  than that of one (22). And at the size \<open>-12\<close> one letter i has width \<open>-3\<close>, two have
  width \<open>-5\<close>.
\<close>

theorem append_lowers_width_counterexample:
  "calculate_width narrow_shape [] Arial 12 narrow_cache True True = Inl TypeError
   \<and> ligature_shape () (1000, 1000) (features_of True True) (replicate 1 CHR ''f'') = Some [550]
   \<and> ligature_shape () (1000, 1000) (features_of True True) (replicate 1 CHR ''f'' @ [CHR ''f'']) = Some [375]
   \<and> calculate_width ligature_shape (replicate 1 CHR ''f'') Arial 40 ligature_cache True True = Inr 22
   \<and> calculate_width ligature_shape (replicate 1 CHR ''f'' @ [CHR ''f'']) Arial 40 ligature_cache True True = Inr 15
   \<and> calculate_width narrow_shape (replicate 1 CHR ''i'') Arial (- 12) narrow_cache True True = Inr (- 3)
   \<and> calculate_width narrow_shape (replicate 1 CHR ''i'' @ [CHR ''i'']) Arial (- 12) narrow_cache True True = Inr (- 5)"
proof -
  have empty: "calculate_width narrow_shape [] Arial 12 narrow_cache True True = Inl TypeError"
    by (rule narrow_empty)
  have glyphs: "ligature_shape () (1000, 1000) (features_of True True) (replicate 1 CHR ''f'') = Some [550]"
    "ligature_shape () (1000, 1000) (features_of True True) (replicate 1 CHR ''f'' @ [CHR ''f'']) = Some [375]"
    by (simp_all add: ligature_shape_def features_of_def)
  have lig: "calculate_width ligature_shape (replicate 1 CHR ''f'') Arial 40 ligature_cache True True = Inr 22"
    "calculate_width ligature_shape (replicate 1 CHR ''f'' @ [CHR ''f'']) Arial 40 ligature_cache True True = Inr 15"
    by (simp_all add: calculate_width_def ligature_loaded ligature_shape_def features_of_def
          py_round_def)
  have neg: "calculate_width narrow_shape (replicate 1 CHR ''i'') Arial (- 12) narrow_cache True True = Inr (- 3)"
    "calculate_width narrow_shape (replicate 1 CHR ''i'' @ [CHR ''i'']) Arial (- 12) narrow_cache True True = Inr (- 5)"
    by (simp_all add: narrow_width py_round_def)
  from empty glyphs lig neg show ?thesis by blast
qed

end
